(* ===== verification/CModel.thy ===== *)
theory CModel
  imports Main "HOL-Library.Word"
begin

text \<open>
  The prelude of the development: what every component theory shares.

  \<^item> \<open>fault\<close> and \<open>'a res\<close>: how a C call ends. It returns a value, ends the process with
    \<open>exit\<close>, ends the thread with \<open>pthread_exit\<close>, is killed by a signal, runs into undefined behaviour, or waits for
    ever. Every early return, \<open>exit\<close> and crash of the source is one of these values.
  \<^item> \<open>('s, 'a) prog\<close>: C code over a state \<open>'s\<close>, with \<open>retM\<close>, \<open>bindM\<close> and the small
    combinators the components are written with, and \<open>wp\<close>, the weakest precondition of a
    program, with the rules that push it through the combinators.
  \<^item> C strings (\<open>cstr\<close>), C arrays of characters, 32-bit conversions.
  \<^item> \<open>step_system\<close>: the contract of a transition system with an invariant.
\<close>

named_theorems prog_simps \<open>equations that run programs on a state\<close>
named_theorems wp_rules \<open>weakest preconditions of the combinators and of the operations\<close>

section \<open>How a C call ends\<close>

datatype fault =
    Null_Deref       \<comment> \<open>a NULL pointer is read or passed to a string function\<close>
  | Out_Of_Bounds    \<comment> \<open>an access outside the array or the allocated block\<close>
  | Double_Free      \<comment> \<open>\<open>free\<close> of a block that is not allocated\<close>
  | Unterminated     \<comment> \<open>a string function on an array without a NUL\<close>
  | Uninitialised    \<comment> \<open>a variable is read before it is written\<close>

datatype 'a res =
    Ret 'a           \<comment> \<open>the call returns\<close>
  | Exit int         \<comment> \<open>\<open>exit(n)\<close>: the process ends\<close>
  | Thread_Exit      \<comment> \<open>\<open>pthread_exit\<close>: the calling thread ends\<close>
  | Killed int       \<comment> \<open>a signal with this number ends the process\<close>
  | UB fault         \<comment> \<open>undefined behaviour\<close>
  | Blocked          \<comment> \<open>the call waits for ever\<close>

primrec bind_res :: "'a res \<Rightarrow> ('a \<Rightarrow> 'b res) \<Rightarrow> 'b res" where
  "bind_res (Ret x) f = f x"
| "bind_res (Exit n) f = Exit n"
| "bind_res Thread_Exit f = Thread_Exit"
| "bind_res (Killed n) f = Killed n"
| "bind_res (UB e) f = UB e"
| "bind_res Blocked f = Blocked"

lemma bind_res_Ret_right [simp]: "bind_res r Ret = r"
  by (cases r) simp_all

lemma bind_res_eq_Ret_iff:
  "bind_res r f = Ret y \<longleftrightarrow> (\<exists>x. r = Ret x \<and> f x = Ret y)"
  by (cases r) simp_all

lemma bind_res_assoc: "bind_res (bind_res r f) g = bind_res r (\<lambda>x. bind_res (f x) g)"
  by (cases r) simp_all

fun returns :: "'a res \<Rightarrow> bool" where
  "returns (Ret x) = True"
| "returns r = False"

fun is_ub :: "'a res \<Rightarrow> bool" where
  "is_ub (UB e) = True"
| "is_ub r = False"

section \<open>Programs over a state\<close>

type_synonym ('s, 'a) prog = "'s \<Rightarrow> 'a res \<times> 's"

definition retM :: "'a \<Rightarrow> ('s, 'a) prog" where
  "retM x = (\<lambda>s. (Ret x, s))"

definition stopM :: "'a res \<Rightarrow> ('s, 'a) prog" where
  "stopM r = (\<lambda>s. (r, s))"

definition bindM :: "('s, 'a) prog \<Rightarrow> ('a \<Rightarrow> ('s, 'b) prog) \<Rightarrow> ('s, 'b) prog" where
  "bindM m f = (\<lambda>s. case m s of
      (Ret x, s') \<Rightarrow> f x s'
    | (Exit n, s') \<Rightarrow> (Exit n, s')
    | (Thread_Exit, s') \<Rightarrow> (Thread_Exit, s')
    | (Killed n, s') \<Rightarrow> (Killed n, s')
    | (UB e, s') \<Rightarrow> (UB e, s')
    | (Blocked, s') \<Rightarrow> (Blocked, s'))"

definition thenM :: "('s, 'a) prog \<Rightarrow> ('s, 'b) prog \<Rightarrow> ('s, 'b) prog" where
  "thenM m n = bindM m (\<lambda>_. n)"

definition whenM :: "bool \<Rightarrow> ('s, unit) prog \<Rightarrow> ('s, unit) prog" where
  "whenM b m = (if b then m else retM ())"

definition getM :: "('s \<Rightarrow> 'a) \<Rightarrow> ('s, 'a) prog" where
  "getM f = (\<lambda>s. (Ret (f s), s))"

definition modM :: "('s \<Rightarrow> 's) \<Rightarrow> ('s, unit) prog" where
  "modM f = (\<lambda>s. (Ret (), f s))"

lemma retM_run [simp, prog_simps]: "retM x s = (Ret x, s)"
  by (simp add: retM_def)

lemma stopM_run [simp, prog_simps]: "stopM r s = (r, s)"
  by (simp add: stopM_def)

lemma getM_run [simp, prog_simps]: "getM f s = (Ret (f s), s)"
  by (simp add: getM_def)

lemma modM_run [simp, prog_simps]: "modM f s = (Ret (), f s)"
  by (simp add: modM_def)

lemma thenM_bindM [prog_simps]: "thenM m n = bindM m (\<lambda>_. n)"
  by (simp add: thenM_def)

lemma whenM_simps [simp, prog_simps]: "whenM True m = m" "whenM False m = retM ()"
  by (simp_all add: whenM_def)

lemma bindM_run [prog_simps]:
  "m s = (Ret x, s') \<Longrightarrow> bindM m f s = f x s'"
  "m s = (Exit n, s') \<Longrightarrow> bindM m f s = (Exit n, s')"
  "m s = (Thread_Exit, s') \<Longrightarrow> bindM m f s = (Thread_Exit, s')"
  "m s = (Killed n, s') \<Longrightarrow> bindM m f s = (Killed n, s')"
  "m s = (UB e, s') \<Longrightarrow> bindM m f s = (UB e, s')"
  "m s = (Blocked, s') \<Longrightarrow> bindM m f s = (Blocked, s')"
  by (simp_all add: bindM_def)

lemma bindM_retM [simp]: "bindM (retM x) f = f x"
  by (rule ext) (simp add: bindM_def)

lemma bindM_assoc: "bindM (bindM m f) g = bindM m (\<lambda>x. bindM (f x) g)"
  by (rule ext) (auto simp: bindM_def split: prod.splits res.splits)

subsection \<open>Weakest preconditions\<close>

text \<open>
  \<open>wp m Q s\<close>: running \<open>m\<close> from \<open>s\<close> ends in a result and a state that satisfy \<open>Q\<close>. The
  programs are total functions, so there is no difference between total and partial
  correctness here; a C call that never returns has the result \<open>Blocked\<close>.
\<close>

definition wp :: "('s, 'a) prog \<Rightarrow> ('a res \<Rightarrow> 's \<Rightarrow> bool) \<Rightarrow> 's \<Rightarrow> bool" where
  "wp m Q s = (case m s of (r, s') \<Rightarrow> Q r s')"

lemma wpI: "m s = (r, s') \<Longrightarrow> Q r s' \<Longrightarrow> wp m Q s"
  by (simp add: wp_def)

lemma wpD: "wp m Q s \<Longrightarrow> m s = (r, s') \<Longrightarrow> Q r s'"
  by (simp add: wp_def)

lemma wp_run: "m s = (r, s') \<Longrightarrow> wp m Q s = Q r s'"
  by (simp add: wp_def)

lemma wp_fst_snd: "wp m Q s = Q (fst (m s)) (snd (m s))"
  by (simp add: wp_def split_beta)

lemma wp_retM [simp, wp_rules]: "wp (retM x) Q s = Q (Ret x) s"
  by (simp add: wp_def)

lemma wp_stopM [simp, wp_rules]: "wp (stopM r) Q s = Q r s"
  by (simp add: wp_def)

lemma wp_getM [simp, wp_rules]: "wp (getM f) Q s = Q (Ret (f s)) s"
  by (simp add: wp_def)

lemma wp_modM [simp, wp_rules]: "wp (modM f) Q s = Q (Ret ()) (f s)"
  by (simp add: wp_def)

text \<open>The postcondition a first program needs for the second one to establish \<open>Q\<close>.\<close>

primrec seq_post :: "('a \<Rightarrow> ('s, 'b) prog) \<Rightarrow> ('b res \<Rightarrow> 's \<Rightarrow> bool) \<Rightarrow> 'a res \<Rightarrow> 's \<Rightarrow> bool" where
  "seq_post f Q (Ret x) s = wp (f x) Q s"
| "seq_post f Q (Exit n) s = Q (Exit n) s"
| "seq_post f Q Thread_Exit s = Q Thread_Exit s"
| "seq_post f Q (Killed n) s = Q (Killed n) s"
| "seq_post f Q (UB e) s = Q (UB e) s"
| "seq_post f Q Blocked s = Q Blocked s"

lemma wp_bindM [wp_rules]: "wp (bindM m f) Q s = wp m (seq_post f Q) s"
  by (auto simp: wp_def bindM_def split: prod.splits res.splits)

lemma wp_thenM [wp_rules]: "wp (thenM m n) Q s = wp m (seq_post (\<lambda>_. n) Q) s"
  by (simp add: thenM_def wp_bindM)

lemma wp_whenM [wp_rules]: "wp (whenM b m) Q s = (if b then wp m Q s else Q (Ret ()) s)"
  by simp

lemma wp_if [wp_rules]: "wp (if b then m else n) Q s = (if b then wp m Q s else wp n Q s)"
  by simp

lemma wp_mono: "wp m P s \<Longrightarrow> (\<And>r s'. P r s' \<Longrightarrow> Q r s') \<Longrightarrow> wp m Q s"
  by (simp add: wp_def split_beta)

lemma wp_conj: "wp m (\<lambda>r s. P r s \<and> Q r s) s = (wp m P s \<and> wp m Q s)"
  by (simp add: wp_def split_beta)

text \<open>To use a program's own lemma inside a longer one: the first part establishes \<open>P\<close>, and
  \<open>P\<close> is enough for the rest.\<close>

lemma wp_seqI:
  assumes "wp m P s"
    and "\<And>x s'. P (Ret x) s' \<Longrightarrow> wp (f x) Q s'"
    and "\<And>n s'. P (Exit n) s' \<Longrightarrow> Q (Exit n) s'"
    and "\<And>s'. P Thread_Exit s' \<Longrightarrow> Q Thread_Exit s'"
    and "\<And>n s'. P (Killed n) s' \<Longrightarrow> Q (Killed n) s'"
    and "\<And>e s'. P (UB e) s' \<Longrightarrow> Q (UB e) s'"
    and "\<And>s'. P Blocked s' \<Longrightarrow> Q Blocked s'"
  shows "wp (bindM m f) Q s"
proof -
  have "P r s' \<Longrightarrow> seq_post f Q r s'" for r s'
    using assms(2-) by (cases r) auto
  then show ?thesis
    unfolding wp_bindM using assms(1) by (rule wp_mono [rotated])
qed

section \<open>Characters, strings, arrays\<close>

text \<open>
  A C string is the list of its characters before the terminating NUL. A character array of
  fixed size that is only used as a string (\<open>root_dir\<close>, \<open>ip_buffer\<close>) is the list of its
  bytes before the first NUL: it is terminated exactly when the list is shorter than the
  array.
\<close>

abbreviation NUL :: char where
  "NUL \<equiv> CHR 0x00"

abbreviation NL :: char where
  "NL \<equiv> CHR 0x0A"

abbreviation CR :: char where
  "CR \<equiv> CHR 0x0D"

abbreviation TAB :: char where
  "TAB \<equiv> CHR 0x09"

definition cstr :: "char list \<Rightarrow> string" where
  "cstr bs = takeWhile (\<lambda>c. c \<noteq> NUL) bs"

definition nul_free :: "string \<Rightarrow> bool" where
  "nul_free s \<longleftrightarrow> NUL \<notin> set s"

lemma cstr_Nil [simp]: "cstr [] = []"
  by (simp add: cstr_def)

lemma cstr_NUL [simp]: "cstr (NUL # bs) = []"
  by (simp add: cstr_def)

lemma cstr_Cons: "c \<noteq> NUL \<Longrightarrow> cstr (c # bs) = c # cstr bs"
  by (simp add: cstr_def)

lemma cstr_id [simp]: "nul_free s \<Longrightarrow> cstr s = s"
  unfolding nul_free_def cstr_def by (subst takeWhile_eq_all_conv) auto

lemma cstr_append_NUL [simp]: "nul_free s \<Longrightarrow> cstr (s @ NUL # bs) = s"
  unfolding nul_free_def cstr_def by (subst takeWhile_append2) auto

lemma cstr_nul_free [simp]: "nul_free (cstr bs)"
  unfolding nul_free_def cstr_def by (auto dest: set_takeWhileD)

lemma length_cstr_le: "length (cstr bs) \<le> length bs"
  by (simp add: cstr_def length_takeWhile_le)

lemma nul_free_simps [simp]:
  "nul_free []" "nul_free (c # s) \<longleftrightarrow> c \<noteq> NUL \<and> nul_free s"
  "nul_free (s @ t) \<longleftrightarrow> nul_free s \<and> nul_free t"
  by (auto simp: nul_free_def)

lemma cstr_append_zeros: "cstr (bs @ replicate n NUL) = cstr bs"
  unfolding cstr_def by (induction bs) (auto simp: takeWhile_eq_Nil_iff hd_replicate)

text \<open>Reading a fixed-size array as a string.\<close>

definition array_str :: "nat \<Rightarrow> string \<Rightarrow> string res" where
  "array_str cap a = (if length a < cap then Ret a else UB Unterminated)"

text \<open>\<open>sprintf\<close> into a block of \<open>cap\<close> bytes writes the text and a NUL; it returns the length.\<close>

definition sprintf_to :: "nat \<Rightarrow> string \<Rightarrow> int res" where
  "sprintf_to cap text = (if length text < cap then Ret (int (length text)) else UB Out_Of_Bounds)"

text \<open>\<open>snprintf\<close> into a zeroed block of more than \<open>n\<close> bytes keeps \<open>n - 1\<close> characters.\<close>

definition snprintf_text :: "nat \<Rightarrow> string \<Rightarrow> string" where
  "snprintf_text n text = take (n - 1) text"

section \<open>Integers\<close>

text \<open>The conversion to \<open>int\<close> that gcc makes: the low 32 bits, read as two's complement.\<close>

definition to_int32 :: "int \<Rightarrow> int" where
  "to_int32 n = sint (word_of_int n :: 32 word)"

lemma to_int32_id: "- (2 ^ 31) \<le> n \<Longrightarrow> n < 2 ^ 31 \<Longrightarrow> to_int32 n = n"
  by (simp add: to_int32_def sint_sbintrunc' signed_take_bit_int_eq_self)

lemma to_int32_range: "- (2 ^ 31) \<le> to_int32 n \<and> to_int32 n < 2 ^ 31"
  unfolding to_int32_def using sint_range_size [of "word_of_int n :: 32 word"]
  by (simp add: word_size)

section \<open>Transition systems\<close>

text \<open>
  The contract of a component that is a transition system: where it starts, how it steps, and
  an invariant. Whoever provides the three facts may use the invariant in every reachable
  state.
\<close>

inductive reach :: "('s \<Rightarrow> bool) \<Rightarrow> ('s \<Rightarrow> 's \<Rightarrow> bool) \<Rightarrow> 's \<Rightarrow> bool"
  for init :: "'s \<Rightarrow> bool" and step :: "'s \<Rightarrow> 's \<Rightarrow> bool" where
  reach_init: "init s \<Longrightarrow> reach init step s"
| reach_step: "reach init step s \<Longrightarrow> step s t \<Longrightarrow> reach init step t"

inductive_cases reach_cases: "reach init step s"

lemma reach_rtranclp: "reach init step s \<Longrightarrow> step\<^sup>*\<^sup>* s t \<Longrightarrow> reach init step t"
  by (rotate_tac) (induction rule: rtranclp_induct, auto intro: reach_step)

locale step_system =
  fixes init :: "'s \<Rightarrow> bool"
    and step :: "'s \<Rightarrow> 's \<Rightarrow> bool"
    and inv :: "'s \<Rightarrow> bool"
  assumes inv_init: "init s \<Longrightarrow> inv s"
    and inv_step: "inv s \<Longrightarrow> step s t \<Longrightarrow> inv t"
begin

lemma reach_inv: "reach init step s \<Longrightarrow> inv s"
  by (induction rule: reach.induct) (auto intro: inv_init inv_step)

lemma inv_rtranclp: "step\<^sup>*\<^sup>* s t \<Longrightarrow> inv s \<Longrightarrow> inv t"
  by (induction rule: rtranclp_induct) (auto intro: inv_step)

end

end
