(* ===== verification/CLib.thy ===== *)
theory CLib
  imports CModel
begin

text \<open>
  The functions of the C library that the sources call, on strings as lists of characters:
  \<open>strcmp\<close>, \<open>strncmp\<close>, \<open>strncpy\<close>, \<open>memchr\<close>, \<open>strtok_r\<close>, \<open>strtol\<close>, the \<open>%d\<close> of
  \<open>printf\<close>, \<open>strrchr\<close>, \<open>basename\<close>, \<open>dirname\<close> (for both platforms), \<open>bsearch\<close> and \<open>getopt\<close>. These are not
  definitions of the repository; the component theories use them where the sources call them.
  The laws the components rely on are proved here.
\<close>

section \<open>Comparing and copying\<close>

text \<open>\<open>strcmp\<close> compares bytes as unsigned characters; only the sign of its result is specified.\<close>

fun strcmp :: "string \<Rightarrow> string \<Rightarrow> int" where
  "strcmp [] [] = 0"
| "strcmp [] (y # ys) = - 1"
| "strcmp (x # xs) [] = 1"
| "strcmp (x # xs) (y # ys) =
     (if x = y then strcmp xs ys
      else if (of_char x :: nat) < of_char y then - 1 else 1)"

lemma strcmp_eq_0 [simp]: "strcmp s t = 0 \<longleftrightarrow> s = t"
  by (induction s t rule: strcmp.induct) auto

lemma strcmp_refl [simp]: "strcmp s s = 0"
  by simp

lemma strcmp_antisym: "strcmp s t < 0 \<longleftrightarrow> 0 < strcmp t s"
  by (induction s t rule: strcmp.induct) (auto simp: not_less order.strict_iff_order)

lemma strcmp_trans: "strcmp s t < 0 \<Longrightarrow> strcmp t u < 0 \<Longrightarrow> strcmp s u < 0"
proof (induction s t arbitrary: u rule: strcmp.induct)
  case (2 y ys)
  then show ?case by (cases u) auto
next
  case (4 x xs y ys)
  then show ?case by (cases u) (auto split: if_splits)
qed auto

definition strncmp_eq :: "string \<Rightarrow> string \<Rightarrow> nat \<Rightarrow> bool" where
  "strncmp_eq s t n \<longleftrightarrow> take n s = take n t"

text \<open>\<open>strncpy (dst, src, n)\<close> into an array that is then read as a string.\<close>

definition strncpy :: "string \<Rightarrow> nat \<Rightarrow> string" where
  "strncpy s n = take n s"

text \<open>\<open>strcpy\<close> into an array of \<open>cap\<close> bytes.\<close>

definition strcpy :: "nat \<Rightarrow> string \<Rightarrow> string res" where
  "strcpy cap s = (if length s < cap then Ret s else UB Out_Of_Bounds)"

text \<open>\<open>memchr (buf, c, n)\<close>: the offset of the first \<open>c\<close> among the first \<open>n\<close> bytes.\<close>

fun memchr :: "char list \<Rightarrow> char \<Rightarrow> nat \<Rightarrow> nat option" where
  "memchr bs c 0 = None"
| "memchr [] c (Suc n) = None"
| "memchr (b # bs) c (Suc n) = (if b = c then Some 0 else map_option Suc (memchr bs c n))"

lemma memchr_None_iff: "memchr bs c n = None \<longleftrightarrow> c \<notin> set (take n bs)"
  by (induction bs c n rule: memchr.induct) auto

lemma memchr_Some_iff:
  "memchr bs c n = Some i \<longleftrightarrow> i < n \<and> i < length bs \<and> bs ! i = c \<and> c \<notin> set (take i bs)"
proof (induction bs c n arbitrary: i rule: memchr.induct)
  case (3 b bs c n)
  then show ?case by (cases i) auto
qed auto

lemma memchr_eq_takeWhile:
  "memchr bs c n =
     (if c \<in> set (take n bs) then Some (length (takeWhile (\<lambda>x. x \<noteq> c) bs)) else None)"
  by (induction bs c n rule: memchr.induct) auto

section \<open>Tokens\<close>

text \<open>
  \<open>strtok_r (s, delims, &save)\<close>: skip delimiters; at the end of the string there is no token
  and \<open>save\<close> stands at the end; otherwise the token runs up to the next delimiter, which is
  overwritten, and \<open>save\<close> stands behind it. The result is the token and what \<open>save\<close> points to.
\<close>

definition strtok_r :: "string \<Rightarrow> string \<Rightarrow> string option \<times> string" where
  "strtok_r s delims =
     (let t = dropWhile (\<lambda>c. c \<in> set delims) s
      in if t = [] then (None, [])
         else (Some (takeWhile (\<lambda>c. c \<notin> set delims) t),
               drop 1 (dropWhile (\<lambda>c. c \<notin> set delims) t)))"

lemma strtok_r_None_iff: "fst (strtok_r s ds) = None \<longleftrightarrow> set s \<subseteq> set ds"
  by (auto simp: strtok_r_def Let_def dropWhile_eq_Nil_conv)

lemma strtok_r_token:
  assumes "strtok_r s ds = (Some w, rest)"
  shows "w \<noteq> [] \<and> set w \<inter> set ds = {}"
proof -
  let ?t = "dropWhile (\<lambda>c. c \<in> set ds) s"
  from assms have t: "?t \<noteq> []" and w: "w = takeWhile (\<lambda>c. c \<notin> set ds) ?t"
    by (auto simp: strtok_r_def Let_def split: if_splits)
  from t have "hd ?t \<notin> set ds" by (rule hd_dropWhile)
  with t w have "w \<noteq> []" by (cases ?t) auto
  moreover have "set w \<inter> set ds = {}"
    unfolding w by (auto dest: set_takeWhileD)
  ultimately show ?thesis ..
qed

text \<open>The first word of a line whose first character is not a delimiter.\<close>

lemma strtok_r_word:
  assumes "w \<noteq> []" and "set w \<inter> set ds = {}" and "d \<in> set ds"
  shows "strtok_r (w @ d # rest) ds = (Some w, rest)"
    and "strtok_r w ds = (Some w, [])"
proof -
  from assms(1,2) have hd: "dropWhile (\<lambda>c. c \<in> set ds) (w @ t) = w @ t" for t
    by (cases w) auto
  from assms(2) have all: "\<And>c. c \<in> set w \<Longrightarrow> c \<notin> set ds" by auto
  have "takeWhile (\<lambda>c. c \<notin> set ds) (w @ d # rest) = w"
    "dropWhile (\<lambda>c. c \<notin> set ds) (w @ d # rest) = d # rest"
    using all assms(3) by (simp_all add: takeWhile_append2 dropWhile_append2)
  with hd [of "d # rest"] assms(1) show "strtok_r (w @ d # rest) ds = (Some w, rest)"
    by (simp add: strtok_r_def)
  have tw: "takeWhile (\<lambda>c. c \<notin> set ds) w = w"
    using all by (simp add: takeWhile_eq_all_conv)
  have dw: "dropWhile (\<lambda>c. c \<notin> set ds) w = []"
    using all by (simp add: dropWhile_eq_Nil_conv)
  from hd [of "[]"] assms(1) show "strtok_r w ds = (Some w, [])"
    by (simp add: strtok_r_def tw dw)
qed

lemma strtok_r_skip:
  "d \<in> set ds \<Longrightarrow> strtok_r (d # s) ds = strtok_r s ds"
  by (simp add: strtok_r_def)

text \<open>\<open>strrchr (s, c)\<close>: the rest of the string from the last \<open>c\<close> on.\<close>

definition strrchr :: "string \<Rightarrow> char \<Rightarrow> string option" where
  "strrchr s c =
     (if c \<in> set s then Some (c # rev (takeWhile (\<lambda>x. x \<noteq> c) (rev s))) else None)"

lemma strrchr_last: "c \<notin> set e \<Longrightarrow> strrchr (d @ c # e) c = Some (c # e)"
  by (simp add: strrchr_def takeWhile_append2) (subst takeWhile_append2, auto)

lemma strrchr_none: "c \<notin> set e \<Longrightarrow> strrchr e c = None"
  by (simp add: strrchr_def)

section \<open>Numbers\<close>

definition isspace :: "char \<Rightarrow> bool" where
  "isspace c \<longleftrightarrow> c = CHR '' '' \<or> (9 \<le> (of_char c :: nat) \<and> (of_char c :: nat) \<le> 13)"

definition isdigit :: "char \<Rightarrow> bool" where
  "isdigit c \<longleftrightarrow> 48 \<le> (of_char c :: nat) \<and> (of_char c :: nat) \<le> 57"

definition digit_val :: "char \<Rightarrow> int" where
  "digit_val c = of_char c - 48"

definition digit_char :: "nat \<Rightarrow> char" where
  "digit_char d = char_of (48 + d)"

lemma digit_char_val:
  "d < 10 \<Longrightarrow> isdigit (digit_char d)" "d < 10 \<Longrightarrow> digit_val (digit_char d) = int d"
proof -
  assume d: "d < 10"
  then have o: "(of_char (digit_char d) :: nat) = 48 + d"
    by (simp add: digit_char_def)
  from d o show "isdigit (digit_char d)" by (simp add: isdigit_def)
  have "(of_char (digit_char d) :: int) = int (of_char (digit_char d))"
    by (simp only: of_nat_of_char)
  with o show "digit_val (digit_char d) = int d" by (simp add: digit_val_def)
qed

fun read_digits :: "string \<Rightarrow> int \<Rightarrow> int \<times> string" where
  "read_digits [] acc = (acc, [])"
| "read_digits (c # cs) acc =
     (if isdigit c then read_digits cs (10 * acc + digit_val c) else (acc, c # cs))"

text \<open>\<open>strtol\<close> in base 10 saturates at the bounds of a 64-bit \<open>long\<close>.\<close>

definition clamp_long :: "int \<Rightarrow> int" where
  "clamp_long n = max (- (2 ^ 63)) (min (2 ^ 63 - 1) n)"

definition strtol :: "string \<Rightarrow> int \<times> string" where
  "strtol s =
     (let t = dropWhile isspace s;
          (neg, u) = (case t of
              [] \<Rightarrow> (False, [])
            | c # cs \<Rightarrow> if c = CHR ''-'' then (True, cs)
                        else if c = CHR ''+'' then (False, cs) else (False, c # cs))
      in case u of
           [] \<Rightarrow> (0, s)
         | c # cs \<Rightarrow>
             if isdigit c
             then (let (v, rest) = read_digits u 0
                   in (clamp_long (if neg then - v else v), rest))
             else (0, s))"

text \<open>The decimal digits of \<open>printf (\"%d\")\<close>.\<close>

fun show_nat :: "nat \<Rightarrow> string" where
  "show_nat n = (if n < 10 then [digit_char n] else show_nat (n div 10) @ [digit_char (n mod 10)])"

declare show_nat.simps [simp del]

definition show_int :: "int \<Rightarrow> string" where
  "show_int n = (if n < 0 then CHR ''-'' # show_nat (nat (- n)) else show_nat (nat n))"

lemma show_nat_digits: "list_all isdigit (show_nat n)"
proof (induction n rule: show_nat.induct)
  case (1 n)
  then show ?case
    by (subst show_nat.simps) (auto simp: digit_char_val)
qed

lemma show_nat_nonempty [simp]: "show_nat n \<noteq> []"
  by (subst show_nat.simps) simp

lemma show_int_nonempty [simp]: "show_int n \<noteq> []"
  by (simp add: show_int_def)

lemma read_digits_append:
  "list_all isdigit ds \<Longrightarrow> read_digits (ds @ cs) acc = read_digits cs (fst (read_digits ds acc))"
  by (induction ds arbitrary: acc) auto

lemma read_digits_all: "list_all isdigit ds \<Longrightarrow> snd (read_digits ds acc) = []"
  by (induction ds arbitrary: acc) auto

lemma read_show_nat: "read_digits (show_nat n) 0 = (int n, [])"
proof (induction n rule: show_nat.induct)
  case (1 n)
  show ?case
  proof (cases "n < 10")
    case True
    then show ?thesis by (subst show_nat.simps) (simp add: digit_char_val)
  next
    case False
    with "1.IH" have "read_digits (show_nat (n div 10)) 0 = (int (n div 10), [])" by simp
    moreover have "10 * int (n div 10) + int (n mod 10) = int n"
      by (metis mult.commute of_nat_add of_nat_mult of_nat_numeral div_mult_mod_eq)
    ultimately show ?thesis
      using False
      by (subst show_nat.simps) (simp add: read_digits_append show_nat_digits digit_char_val)
  qed
qed

lemma isdigit_not_special:
  "isdigit c \<Longrightarrow> \<not> isspace c \<and> c \<noteq> CHR ''-'' \<and> c \<noteq> CHR ''+'' \<and> c \<noteq> NUL"
  by (auto simp: isdigit_def isspace_def)

lemma strtol_show_nat: "strtol (show_nat n) = (clamp_long (int n), [])"
proof -
  obtain c cs where s: "show_nat n = c # cs" by (cases "show_nat n") auto
  with show_nat_digits [of n] have "isdigit c" by simp
  with s show ?thesis
    using read_show_nat [of n]
    by (auto simp: strtol_def Let_def isdigit_not_special split: prod.splits)
qed

text \<open>What \<open>printf\<close> writes, \<open>strtol\<close> reads back.\<close>

lemma strtol_show_int: "strtol (show_int n) = (clamp_long n, [])"
proof (cases "n < 0")
  case True
  obtain c cs where s: "show_nat (nat (- n)) = c # cs"
    by (cases "show_nat (nat (- n))") auto
  with show_nat_digits [of "nat (- n)"] have "isdigit c" by simp
  moreover have "\<not> isspace (CHR ''-'')" by (simp add: isspace_def)
  ultimately show ?thesis
    using True s read_show_nat [of "nat (- n)"]
    by (auto simp: strtol_def show_int_def Let_def split: prod.splits)
next
  case False
  then show ?thesis by (simp add: show_int_def strtol_show_nat)
qed

lemma clamp_long_id: "- (2 ^ 63) \<le> n \<Longrightarrow> n < 2 ^ 63 \<Longrightarrow> clamp_long n = n"
  by (simp add: clamp_long_def)

text \<open>How long a number is when it is printed.\<close>

lemma length_show_nat: "n < 10 ^ k \<Longrightarrow> 0 < k \<Longrightarrow> length (show_nat n) \<le> k"
proof (induction n arbitrary: k rule: show_nat.induct)
  case (1 n)
  show ?case
  proof (cases "n < 10")
    case True
    with "1.prems" show ?thesis by (subst show_nat.simps) simp
  next
    case False
    then obtain j where k: "k = Suc j" and j: "0 < j"
      using "1.prems" by (cases k; cases "k - 1") auto
    with "1.prems" have "n div 10 < 10 ^ j" by (simp add: less_mult_imp_div_less mult.commute)
    with "1.IH" False j have "length (show_nat (n div 10)) \<le> j" by blast
    with False k show ?thesis by (subst show_nat.simps) simp
  qed
qed

lemma length_show_nat_gt: "10 ^ k \<le> n \<Longrightarrow> k < length (show_nat n)"
proof (induction n arbitrary: k rule: show_nat.induct)
  case (1 n)
  show ?case
  proof (cases "n < 10")
    case True
    have "k = 0"
    proof (rule ccontr)
      assume "k \<noteq> 0"
      then have "(10::nat) ^ 1 \<le> 10 ^ k" by (intro power_increasing) auto
      with "1.prems" True show False by simp
    qed
    then show ?thesis by simp
  next
    case False
    show ?thesis
    proof (cases k)
      case (Suc j)
      with "1.prems" have "10 ^ j \<le> n div 10" by (simp add: less_eq_div_iff_mult_less_eq mult.commute)
      with "1.IH" False have "j < length (show_nat (n div 10))" by blast
      with False Suc show ?thesis by (subst show_nat.simps) simp
    qed simp
  qed
qed

lemma length_show_nat_iff: "0 < k \<Longrightarrow> length (show_nat n) \<le> k \<longleftrightarrow> n < 10 ^ k"
  using length_show_nat [of n k] length_show_nat_gt [of k n] by linarith

lemma length_show_int_iff:
  "length (show_int n) \<le> Suc (Suc k) \<longleftrightarrow> - (10 ^ Suc k) < n \<and> n < 10 ^ Suc (Suc k)"
proof (cases "n < 0")
  case True
  then have "length (show_int n) \<le> Suc (Suc k) \<longleftrightarrow> nat (- n) < 10 ^ Suc k"
    using length_show_nat_iff [of "Suc k" "nat (- n)"] by (simp add: show_int_def)
  also have "\<dots> \<longleftrightarrow> - n < 10 ^ Suc k"
    using True by (simp add: nat_less_iff)
  finally show ?thesis using True by (smt (verit) zero_less_power)
next
  case False
  then have "length (show_int n) \<le> Suc (Suc k) \<longleftrightarrow> nat n < 10 ^ Suc (Suc k)"
    using length_show_nat_iff [of "Suc (Suc k)" "nat n"] by (simp add: show_int_def)
  also have "\<dots> \<longleftrightarrow> n < 10 ^ Suc (Suc k)"
    using False by (simp add: nat_less_iff)
  finally show ?thesis using False by (smt (verit) zero_less_power)
qed

lemma show_nat_chars: "c \<in> set (show_nat n) \<Longrightarrow> isdigit c"
  using show_nat_digits [of n] by (simp add: list_all_iff)

lemma show_int_chars: "c \<in> set (show_int n) \<Longrightarrow> isdigit c \<or> c = CHR ''-''"
  by (auto simp: show_int_def dest: show_nat_chars split: if_splits)

lemma show_int_not_special:
  assumes "c \<in> set (show_int n)"
  shows "c \<noteq> NUL \<and> c \<noteq> TAB \<and> c \<noteq> NL \<and> c \<noteq> CR \<and> c \<noteq> CHR '' ''"
  using show_int_chars [OF assms] by (auto simp: isdigit_def)

section \<open>Path components\<close>

definition rstrip :: "char \<Rightarrow> string \<Rightarrow> string" where
  "rstrip c s = rev (dropWhile (\<lambda>x. x = c) (rev s))"

definition basename :: "string \<Rightarrow> string" where
  "basename s =
     (if s = [] then ''.''
      else let t = rstrip (CHR ''/'') s
           in if t = [] then ''/'' else rev (takeWhile (\<lambda>x. x \<noteq> CHR ''/'') (rev t)))"

definition dirname :: "string option \<Rightarrow> string" where
  "dirname p = (case p of
      None \<Rightarrow> ''.''
    | Some s \<Rightarrow>
       (if s = [] then ''.''
        else let t = rstrip (CHR ''/'') s
             in if t = [] then ''/''
                else let d = dropWhile (\<lambda>x. x \<noteq> CHR ''/'') (rev t)
                     in if d = [] then ''.''
                        else let e = dropWhile (\<lambda>x. x = CHR ''/'') d
                             in if e = [] then ''/'' else rev e))"

lemma basename_last:
  assumes "b \<noteq> []" and "CHR ''/'' \<notin> set b"
  shows "basename (d @ CHR ''/'' # b) = b"
proof -
  obtain c cs where r: "rev b = c # cs" using assms(1) by (cases "rev b") auto
  then have "c \<in> set b" by (metis list.set_intros(1) set_rev)
  with assms(2) have c: "c \<noteq> CHR ''/''" by auto
  then have "rstrip (CHR ''/'') (d @ CHR ''/'' # b) = d @ CHR ''/'' # b"
    by (simp add: rstrip_def r) (metis append_Cons append_assoc r rev.simps(2) rev_append rev_rev_ident self_append_conv2)
  moreover have "takeWhile (\<lambda>x. x \<noteq> CHR ''/'') (rev b @ CHR ''/'' # rev d) = rev b"
    using assms(2) by (subst takeWhile_append2) auto
  ultimately show ?thesis by (simp add: basename_def)
qed

lemma rstrip_id: "s \<noteq> [] \<Longrightarrow> last s \<noteq> c \<Longrightarrow> rstrip c s = s"
  unfolding rstrip_def by (cases s rule: rev_cases) auto

lemma dirname_last:
  assumes "d \<noteq> []" and "last d \<noteq> CHR ''/''" and "b \<noteq> []" and "CHR ''/'' \<notin> set b"
  shows "dirname (Some (d @ CHR ''/'' # b)) = d"
proof -
  have "last b \<noteq> CHR ''/''" using assms(3,4) by (metis last_in_set)
  then have r: "rstrip (CHR ''/'') (d @ CHR ''/'' # b) = d @ CHR ''/'' # b"
    using assms(3) by (intro rstrip_id) auto
  have "dropWhile (\<lambda>x. x \<noteq> CHR ''/'') (rev b @ CHR ''/'' # rev d) = CHR ''/'' # rev d"
    using assms(4) by (subst dropWhile_append2) auto
  moreover have "dropWhile (\<lambda>x. x = CHR ''/'') (rev d) = rev d"
    using assms(1,2) by (cases d rule: rev_cases) auto
  ultimately show ?thesis
    using assms(1) by (simp add: dirname_def r Let_def)
qed

text \<open>On Windows both separators count and a path may start with the name of a drive.\<close>

abbreviation BACKSLASH :: char where "BACKSLASH \<equiv> CHR 0x5C"

definition win_sep :: "char \<Rightarrow> bool" where
  "win_sep c \<longleftrightarrow> c = CHR ''/'' \<or> c = BACKSLASH"

definition drive :: "string \<Rightarrow> nat" where
  "drive s = (if 1 < length s \<and> s ! 1 = CHR '':'' then 2 else 0)"

definition win_strip :: "string \<Rightarrow> string" where
  "win_strip s = rev (dropWhile win_sep (rev s))"

definition win_basename :: "string \<Rightarrow> string" where
  "win_basename s =
     (let p = drop (drive s) s
      in if p = [] then ''.''
         else let t = win_strip p
              in if t = [] then ''/'' else rev (takeWhile (\<lambda>x. \<not> win_sep x) (rev t)))"

definition win_dirname :: "string \<Rightarrow> string" where
  "win_dirname s = take (drive s) s @
     (let p = drop (drive s) s
      in if p = [] then ''.''
         else let t = win_strip p
              in if t = [] then take 1 p
                 else let d = dropWhile (\<lambda>x. \<not> win_sep x) (rev t)
                      in if d = [] then ''.''
                         else let e = win_strip (rev d)
                              in if e = [] then take 1 p else e)"

lemma win_strip_id: "s \<noteq> [] \<Longrightarrow> \<not> win_sep (last s) \<Longrightarrow> win_strip s = s"
  unfolding win_strip_def by (cases s rule: rev_cases) auto

lemma win_path_last:
  assumes "2 \<le> length d" and "\<not> win_sep (last d)" and "win_sep c" and "b \<noteq> []" and "list_all (\<lambda>x. \<not> win_sep x) b"
    and "drop (drive d) d \<noteq> []"
  shows "win_basename (d @ c # b) = b" and "win_dirname (d @ c # b) = d"
proof -
  have n: "drive (d @ c # b) = drive d" "drive d \<le> length d"
    using assms(1) by (auto simp: drive_def nth_append)
  let ?p = "drop (drive d) d @ c # b"
  have "\<not> win_sep (last b)" using assms(4,5) by (simp add: list_all_iff)
  then have t: "win_strip ?p = ?p" using assms(4) by (intro win_strip_id) auto
  have b: "list_all (\<lambda>x. \<not> win_sep x) (rev b)" using assms(5) by (simp add: list_all_iff)
  have "takeWhile (\<lambda>x. \<not> win_sep x) (rev b @ c # rev (drop (drive d) d)) = rev b"
    using b assms(3) by (subst takeWhile_append2) (auto simp: list_all_iff)
  then show "win_basename (d @ c # b) = b"
    using n t by (simp add: win_basename_def Let_def)
  have "dropWhile (\<lambda>x. \<not> win_sep x) (rev b @ c # rev (drop (drive d) d)) = c # rev (drop (drive d) d)"
    using b assms(3) by (subst dropWhile_append2) (auto simp: list_all_iff)
  moreover have "win_strip (drop (drive d) d @ [c]) = drop (drive d) d"
    using assms(2,3,6) win_strip_id [of "drop (drive d) d"]
    by (simp add: win_strip_def last_drop)
  ultimately show "win_dirname (d @ c # b) = d"
    using n t assms(6) by (simp add: win_dirname_def Let_def)
qed

section \<open>Binary search\<close>

text \<open>
  \<open>bsearch\<close> of the C library halves the interval \<open>[l, u)\<close> of the table until the comparison
  function returns zero.
\<close>

function bsearch :: "('e \<Rightarrow> int) \<Rightarrow> 'e list \<Rightarrow> nat \<Rightarrow> nat \<Rightarrow> 'e option" where
  "bsearch cmp tab l u =
     (if l < u
      then (let i = (l + u) div 2; c = cmp (tab ! i)
            in if c < 0 then bsearch cmp tab l i
               else if 0 < c then bsearch cmp tab (Suc i) u
               else Some (tab ! i))
      else None)"
  by pat_completeness auto
termination
  by (relation "measure (\<lambda>(cmp, tab, l, u). u - l)") auto

declare bsearch.simps [simp del]

text \<open>
  What a caller of \<open>bsearch\<close> provides: keys of the entries and a comparison of keys that is
  zero on equal keys and orders the table. What it gets back is the entry the key has in the
  table, found by looking through the table from the front.
\<close>

locale key_order =
  fixes cmp :: "'k \<Rightarrow> 'k \<Rightarrow> int"
  assumes cmp_eq: "cmp a b = 0 \<longleftrightarrow> a = b"
    and cmp_antisym: "cmp a b < 0 \<longleftrightarrow> 0 < cmp b a"
    and cmp_trans: "cmp a b < 0 \<Longrightarrow> cmp b c < 0 \<Longrightarrow> cmp a c < 0"
begin

lemma cmp_not_less: "\<not> (cmp a b < 0 \<and> cmp b a < 0)"
  using cmp_trans [of a b a] cmp_eq [of a a] by auto

end

interpretation strcmp_order: key_order strcmp
  by (rule key_order.intro) (rule strcmp_eq_0, rule strcmp_antisym, rule strcmp_trans)

locale search_table = key_order cmp for cmp :: "'k \<Rightarrow> 'k \<Rightarrow> int" +
  fixes tab :: "('k \<times> 'v) list"
  assumes tab_sorted: "sorted_wrt (\<lambda>x y. cmp (fst x) (fst y) < 0) tab"
begin

lemma tab_less: "i < j \<Longrightarrow> j < length tab \<Longrightarrow> cmp (fst (tab ! i)) (fst (tab ! j)) < 0"
  using tab_sorted by (simp add: sorted_wrt_iff_nth_less)

lemma keys_distinct: "distinct (map fst tab)"
proof -
  have "fst (tab ! i) \<noteq> fst (tab ! j)" if "i < j" "j < length tab" for i j
    using tab_less [OF that] cmp_eq by (metis less_irrefl)
  then show ?thesis
    unfolding distinct_conv_nth by (metis length_map linorder_neqE_nat nth_map)
qed

text \<open>The invariant of the search: an entry with the key lies inside the interval.\<close>

lemma bsearch_window:
  assumes "u \<le> length tab"
    and "\<And>j. j < length tab \<Longrightarrow> fst (tab ! j) = k \<Longrightarrow> l \<le> j \<and> j < u"
  shows "bsearch (\<lambda>e. cmp k (fst e)) tab l u = map_option (\<lambda>v. (k, v)) (map_of tab k)"
  using assms
proof (induction "u - l" arbitrary: l u rule: less_induct)
  case less
  show ?case
  proof (cases "l < u")
    case False
    then have "k \<notin> fst ` set tab"
      using less.prems(2) by (fastforce simp: in_set_conv_nth)
    then have "map_of tab k = None" by (simp add: map_of_eq_None_iff)
    with False show ?thesis by (subst bsearch.simps) simp
  next
    case True
    define i where "i = (l + u) div 2"
    from True have i: "l \<le> i" "i < u" by (auto simp: i_def)
    with less.prems(1) have il: "i < length tab" by simp
    consider (lt) "cmp k (fst (tab ! i)) < 0" | (gt) "0 < cmp k (fst (tab ! i))"
      | (eq) "k = fst (tab ! i)"
      using cmp_eq by (metis linorder_neqE)
    then show ?thesis
    proof cases
      case lt
      have "j < i" if "j < length tab" "fst (tab ! j) = k" for j
        using that lt tab_less [of i j] cmp_not_less cmp_eq [of k k]
        by (metis less_irrefl linorder_neqE_nat)
      then have "bsearch (\<lambda>e. cmp k (fst e)) tab l i = map_option (\<lambda>v. (k, v)) (map_of tab k)"
        using less.prems i by (intro less.hyps) auto
      with lt True show ?thesis by (subst bsearch.simps) (simp add: Let_def i_def)
    next
      case gt
      then have less: "cmp (fst (tab ! i)) k < 0" using cmp_antisym by blast
      have "Suc i \<le> j" if "j < length tab" "fst (tab ! j) = k" for j
        using that less tab_less [of j i] il cmp_not_less cmp_eq [of k k]
        by (metis Suc_leI less_irrefl linorder_neqE_nat)
      then have "bsearch (\<lambda>e. cmp k (fst e)) tab (Suc i) u = map_option (\<lambda>v. (k, v)) (map_of tab k)"
        using less.prems i by (intro less.hyps) auto
      with gt True show ?thesis by (subst bsearch.simps) (simp add: Let_def i_def)
    next
      case eq
      then have "cmp k (fst (tab ! i)) = 0" using cmp_eq by simp
      moreover have "map_of tab k = Some (snd (tab ! i))"
        using keys_distinct il eq by (simp add: map_of_eq_Some_iff nth_mem)
      ultimately show ?thesis
        using True eq by (subst bsearch.simps) (simp add: Let_def i_def)
    qed
  qed
qed

theorem bsearch_map_of:
  "bsearch (\<lambda>e. cmp k (fst e)) tab 0 (length tab) = map_option (\<lambda>v. (k, v)) (map_of tab k)"
  by (rule bsearch_window) auto

end

section \<open>Command-line options\<close>

text \<open>
  \<open>getopt (argc, argv, optstring)\<close> of the GNU library, called until it returns -1: the sequence
  of the options with their arguments. Arguments that are no options are permuted to the end
  and never seen by the caller; \<open>--\<close> ends the options; an unknown option or one without its
  argument is \<open>?\<close>. The option string is given by the letters without (\<open>flags\<close>) and with
  (\<open>params\<close>) an argument.
\<close>

fun getopt_cluster ::
  "string \<Rightarrow> string \<Rightarrow> string \<Rightarrow> string list \<Rightarrow> (char \<times> string) list \<times> string list" where
  "getopt_cluster flags params [] rest = ([], rest)"
| "getopt_cluster flags params (c # cs) rest =
     (if c \<in> set flags
      then (let (os, rest') = getopt_cluster flags params cs rest in ((c, []) # os, rest'))
      else if c \<in> set params
      then (if cs \<noteq> [] then ([(c, cs)], rest)
            else case rest of
                   [] \<Rightarrow> ([(CHR ''?'', [])], [])
                 | a # rest' \<Rightarrow> ([(c, a)], rest'))
      else (let (os, rest') = getopt_cluster flags params cs rest
            in ((CHR ''?'', []) # os, rest')))"

lemma getopt_cluster_length:
  "length (snd (getopt_cluster flags params cs rest)) \<le> length rest"
  by (induction cs) (auto split: prod.splits list.splits)

function getopt :: "string \<Rightarrow> string \<Rightarrow> string list \<Rightarrow> (char \<times> string) list" where
  "getopt flags params [] = []"
| "getopt flags params (a # rest) =
     (if a = ''--'' then []
      else if 1 < length a \<and> hd a = CHR ''-''
      then fst (getopt_cluster flags params (tl a) rest)
             @ getopt flags params (snd (getopt_cluster flags params (tl a) rest))
      else getopt flags params rest)"
  by pat_completeness auto
termination
  by (relation "measure (\<lambda>(_, _, as). length as)")
    (auto simp: le_imp_less_Suc getopt_cluster_length)

end
