(* ===== verification/World.thy ===== *)
theory World
  imports CLib
begin

text \<open>
  The data of \<open>general/include/definitions.h\<close> and the state in which one request is handled.

  \<^item> \<open>Configs\<close> and \<open>ThreadArgs\<close> are the structs of the header file.
  \<^item> \<open>os\<close> is the operating system as the handler sees it: the file system, the \<open>file\<close>
    command, and whether a thread can be started. It is a parameter of every operation.
  \<^item> \<open>world\<close> is what a request changes: its \<open>ThreadArgs\<close>, the client's socket (bytes still to
    be received, bytes delivered, number of \<open>close\<close> calls), the heap blocks, the open file,
    the locks, and the messages given to the log process. Its \<open>obstacles\<close> are what can make a
    call wait for ever: a silent or stalled client, locks and the log process.
  \<^item> One program per system or library call that changes the world: \<open>callocM\<close>, \<open>freeM\<close>,
    \<open>recvM\<close>, \<open>sendM\<close>, \<open>close_client\<close>, \<open>mutex_lock\<close> and so on.

  Diagnostics (\<open>log_ut\<close>, \<open>vlog_ut\<close>, \<open>perror\<close>, \<open>fprintf (stderr, ...)\<close>) are not part of the
  world: no code depends on them.
\<close>

section \<open>definitions.h\<close>

text \<open>File types, as \<open>file_type\<close> returns them.\<close>

definition FILES_NOT_EXIST :: int where "FILES_NOT_EXIST = 0"
definition FILES_IS_DIRECTORY :: int where "FILES_IS_DIRECTORY = 1"
definition FILES_IS_REG_FILE :: int where "FILES_IS_REG_FILE = 2"
definition FILES_IS_UNMANAGED_FILE :: int where "FILES_IS_UNMANAGED_FILE = 3"
definition FILES_NOT_PERMITTED :: int where "FILES_NOT_PERMITTED = 4"

lemmas file_types =
  FILES_NOT_EXIST_def FILES_IS_DIRECTORY_def FILES_IS_REG_FILE_def
  FILES_IS_UNMANAGED_FILE_def FILES_NOT_PERMITTED_def

definition CONNECTION_QUEUE :: int where "CONNECTION_QUEUE = 5000"
definition BUFFER_SIZE :: nat where "BUFFER_SIZE = 2048"
definition VERBOSE_LEVEL :: int where "VERBOSE_LEVEL = 4"
definition SEND_BUFFER_SIZE :: nat where "SEND_BUFFER_SIZE = 512"
definition M_PROCESS :: int where "M_PROCESS = 0"
definition M_THREAD :: int where "M_THREAD = 1"
definition NEED_TO_FREE :: int where "NEED_TO_FREE = - 2"
definition NO_FREE :: int where "NO_FREE = - 3"

lemmas modes = M_PROCESS_def M_THREAD_def
lemmas free_codes = NEED_TO_FREE_def NO_FREE_def

definition OS_SEPARATOR :: char where "OS_SEPARATOR = CHR ''/''"

text \<open>
  \<open>struct Configs\<close>. \<open>root_dir\<close> is the array of \<open>BUFFER_SIZE\<close> characters; \<open>reset_config\<close> is
  only compared with NULL, so the model keeps whether it is set; \<open>hostname\<close> is either not yet
  set or points to the global \<open>ip_buffer\<close>.
\<close>

datatype host_ptr = Host_Unset | Host_Ip_Buffer

record Configs =
  port_number :: "32 word"
  mode_concurrency :: int
  root_dir :: string
  used_OPTARG :: int
  reset_config :: bool
  hostname :: host_ptr

record ThreadArgs =
  fd :: int
  configs :: Configs
  ip_client :: string
  type_Request :: int

text \<open>The value that \<open>%d\<close> prints for the unsigned port, and that \<open>int\<close> parameters receive.\<close>

definition port_int :: "Configs \<Rightarrow> int" where
  "port_int c = sint (port_number c)"

section \<open>The operating system\<close>

text \<open>What \<open>popen (\"file ...\")\<close> gives: no pipe, no output, or a first line.\<close>

datatype popen_res = Popen_Fail | Popen_Eof | Popen_Line string

record os =
  os_stat :: "string \<Rightarrow> 32 word option"      \<comment> \<open>\<open>st_mode\<close>, if \<open>stat\<close> succeeds\<close>
  os_realpath :: "string \<Rightarrow> string option"
  os_opendir :: "string \<Rightarrow> string list option" \<comment> \<open>the names \<open>readdir\<close> returns, in order\<close>
  os_popen :: "string \<Rightarrow> popen_res"
  os_open :: "string \<Rightarrow> bool"                 \<comment> \<open>\<open>open (path, O_RDWR)\<close> succeeds\<close>
  os_fstat :: "string \<Rightarrow> nat option"          \<comment> \<open>\<open>st_size\<close> of the opened file\<close>
  os_mmap :: "string \<Rightarrow> string option"        \<comment> \<open>the mapped bytes\<close>
  os_thread :: bool                           \<comment> \<open>\<open>pthread_create\<close> succeeds\<close>

section \<open>The world of a request\<close>

text \<open>The heap blocks a request can hold, named after the pointers.\<close>

datatype blk =
    Blk_Args | Blk_Ip | Blk_Buf | Blk_Path | Blk_Msg | Blk_Fullpath | Blk_Line
  | Blk_Command | Blk_Mime | Blk_Base_Abs | Blk_Path_Abs

text \<open>What the next \<open>recv\<close> or \<open>send\<close> meets. When the receive events are used up the client has closed
  its side, when the send events are used up the network takes everything, unless an obstacle says
  otherwise.\<close>

datatype rx_event = Rx_Data string | Rx_Intr | Rx_Err
datatype tx_event = Tx_Short nat | Tx_Err | Tx_Pipe

text \<open>What stays as it is for as long as the request lasts, and can hold it up for ever.\<close>

datatype obstacle =
    Client_Silent      \<comment> \<open>after its events the client sends nothing and does not close either\<close>
  | Client_Stalled     \<comment> \<open>after the send events the client takes nothing more\<close>
  | File_Locked        \<comment> \<open>another process keeps its \<open>lockf\<close> lock on the served file\<close>
  | Log_No_Token       \<comment> \<open>no token comes from the log process any more\<close>
  | Log_Mutex_Held     \<comment> \<open>the mutex of the log is never released\<close>
  | Log_Pipe_Full      \<comment> \<open>the log pipe is full and nobody empties it\<close>
  | Log_No_Reader      \<comment> \<open>nobody reads the log pipe\<close>
  | No_Sigpipe         \<comment> \<open>a system without \<open>SIGPIPE\<close>: the call fails instead\<close>

record world =
  w_args :: ThreadArgs
  ip_buffer :: string
  cwd :: string
  DOS_PROTECTION :: int
  rx :: "rx_event list"
  tx :: "tx_event list"
  oom :: "bool list"         \<comment> \<open>results of the next allocations; all later ones succeed\<close>
  out :: string              \<comment> \<open>bytes delivered to the client\<close>
  closes :: nat              \<comment> \<open>\<open>close\<close> calls on the client's descriptor\<close>
  live :: "blk list"         \<comment> \<open>allocated blocks\<close>
  file_open :: bool          \<comment> \<open>the descriptor of the served file is open\<close>
  file_lock :: bool          \<comment> \<open>\<open>lockf\<close> lock on the served file\<close>
  p_mutex :: bool            \<comment> \<open>the mutex of the process that serialises file transfers is held\<close>
  plog :: "string list"      \<comment> \<open>messages given to the log process\<close>
  obstacles :: "obstacle set"

subsection \<open>Memory\<close>

definition callocM :: "blk \<Rightarrow> (world, bool) prog" where
  "callocM b = (\<lambda>w. case oom w of
      [] \<Rightarrow> (Ret True, w\<lparr>live := b # live w\<rparr>)
    | ok # rest \<Rightarrow>
        if ok then (Ret True, w\<lparr>live := b # live w, oom := rest\<rparr>)
        else (Ret False, w\<lparr>oom := rest\<rparr>))"

definition freeM :: "blk \<Rightarrow> (world, unit) prog" where
  "freeM b = (\<lambda>w. if b \<in> set (live w) then (Ret (), w\<lparr>live := remove1 b (live w)\<rparr>)
                  else (UB Double_Free, w))"

text \<open>A block that a library function allocates for the caller and that is never NULL.\<close>

definition lib_alloc :: "blk \<Rightarrow> (world, unit) prog" where
  "lib_alloc b = modM (\<lambda>w. w\<lparr>live := b # live w\<rparr>)"

subsection \<open>The client's socket\<close>

definition sock_usable :: "world \<Rightarrow> bool" where
  "sock_usable w \<longleftrightarrow> 0 \<le> fd (w_args w) \<and> closes w = 0"

datatype recv_res = Got string | Recv_Eintr | Recv_Error

definition recvM :: "nat \<Rightarrow> (world, recv_res) prog" where
  "recvM n = (\<lambda>w.
     if \<not> sock_usable w then (Ret Recv_Error, w)
     else case rx w of
         [] \<Rightarrow> if Client_Silent \<in> obstacles w then (Blocked, w) else (Ret (Got []), w)
       | Rx_Intr # rest \<Rightarrow> (Ret Recv_Eintr, w\<lparr>rx := rest\<rparr>)
       | Rx_Err # rest \<Rightarrow> (Ret Recv_Error, w\<lparr>rx := rest\<rparr>)
       | Rx_Data bs # rest \<Rightarrow>
           if length bs \<le> n then (Ret (Got bs), w\<lparr>rx := rest\<rparr>)
           else (Ret (Got (take n bs)), w\<lparr>rx := Rx_Data (drop n bs) # rest\<rparr>))"

text \<open>\<open>SIGPIPE\<close> is neither ignored nor handled, so a \<open>send\<close> to a connection that the client has
  reset ends the process. A client that takes nothing makes \<open>send\<close> wait.\<close>

definition SIGPIPE :: int where "SIGPIPE = 13"

definition sendM :: "string \<Rightarrow> (world, int) prog" where
  "sendM bs = (\<lambda>w.
     if \<not> sock_usable w then (Ret (- 1), w)
     else case tx w of
         [] \<Rightarrow> if Client_Stalled \<in> obstacles w \<and> bs \<noteq> [] then (Blocked, w)
           else (Ret (int (length bs)), w\<lparr>out := out w @ bs\<rparr>)
       | Tx_Short k # rest \<Rightarrow>
           (Ret (int (min k (length bs))), w\<lparr>out := out w @ take k bs, tx := rest\<rparr>)
       | Tx_Err # rest \<Rightarrow> (Ret (- 1), w\<lparr>tx := rest\<rparr>)
       | Tx_Pipe # rest \<Rightarrow>
           (if No_Sigpipe \<in> obstacles w then Ret (- 1) else Killed SIGPIPE, w\<lparr>tx := rest\<rparr>))"

text \<open>\<open>shutdown\<close> and \<open>close\<close>; the results are only printed.\<close>

definition close_client :: "(world, unit) prog" where
  "close_client = modM (\<lambda>w. w\<lparr>closes := Suc (closes w)\<rparr>)"

definition set_type_Request :: "int \<Rightarrow> (world, unit) prog" where
  "set_type_Request n = modM (\<lambda>w. w\<lparr>w_args := (w_args w)\<lparr>type_Request := n\<rparr>\<rparr>)"

subsection \<open>Files and locks\<close>

definition open_file :: "os \<Rightarrow> string \<Rightarrow> (world, bool) prog" where
  "open_file env path =
     (\<lambda>w. if os_open env path then (Ret True, w\<lparr>file_open := True\<rparr>) else (Ret False, w))"

text \<open>Closing a file releases the process's \<open>lockf\<close> locks on it.\<close>

definition close_file :: "(world, unit) prog" where
  "close_file = modM (\<lambda>w. w\<lparr>file_open := False, file_lock := False\<rparr>)"

definition lockf_lock :: "(world, unit) prog" where
  "lockf_lock = (\<lambda>w. if File_Locked \<in> obstacles w then (Blocked, w) else (Ret (), w\<lparr>file_lock := True\<rparr>))"

definition lockf_unlock :: "(world, unit) prog" where
  "lockf_unlock = modM (\<lambda>w. w\<lparr>file_lock := False\<rparr>)"

text \<open>
  The mutex is not recursive and nobody else unlocks it: a handler that finds it held by a
  thread that has ended waits for ever.
\<close>

definition mutex_lock :: "(world, unit) prog" where
  "mutex_lock = (\<lambda>w. if p_mutex w then (Blocked, w) else (Ret (), w\<lparr>p_mutex := True\<rparr>))"

definition mutex_unlock :: "(world, unit) prog" where
  "mutex_unlock = modM (\<lambda>w. w\<lparr>p_mutex := False\<rparr>)"

text \<open>A handler's side of the log: the token from the log process, the mutex in shared memory, and the
  pipe. \<open>LogPipe\<close> has both sides step by step.\<close>

definition log_token :: "(world, unit) prog" where
  "log_token = (\<lambda>w. (if Log_No_Token \<in> obstacles w then Blocked else Ret (), w))"

definition log_lock :: "(world, unit) prog" where
  "log_lock = (\<lambda>w. (if Log_Mutex_Held \<in> obstacles w then Blocked else Ret (), w))"

definition log_pipe :: "(world, unit) prog" where
  "log_pipe = (\<lambda>w. (if Log_Pipe_Full \<in> obstacles w then Blocked
     else if Log_No_Reader \<in> obstacles w then Killed SIGPIPE else Ret (), w))"

definition log_message :: "string \<Rightarrow> (world, unit) prog" where
  "log_message m = modM (\<lambda>w. w\<lparr>plog := plog w @ [m]\<rparr>)"

subsection \<open>Weakest preconditions of the calls\<close>

lemma wp_callocM [wp_rules]:
  "wp (callocM b) Q w =
     (case oom w of
        [] \<Rightarrow> Q (Ret True) (w\<lparr>live := b # live w\<rparr>)
      | ok # rest \<Rightarrow> if ok then Q (Ret True) (w\<lparr>live := b # live w, oom := rest\<rparr>)
                     else Q (Ret False) (w\<lparr>oom := rest\<rparr>))"
  by (auto simp: wp_def callocM_def split: list.splits)

lemma wp_freeM [wp_rules]:
  "wp (freeM b) Q w =
     (if b \<in> set (live w) then Q (Ret ()) (w\<lparr>live := remove1 b (live w)\<rparr>)
      else Q (UB Double_Free) w)"
  by (simp add: wp_def freeM_def)

lemma wp_lib_alloc [wp_rules]: "wp (lib_alloc b) Q w = Q (Ret ()) (w\<lparr>live := b # live w\<rparr>)"
  by (simp add: lib_alloc_def)

lemma wp_recvM [wp_rules]:
  "wp (recvM n) Q w =
     (if \<not> sock_usable w then Q (Ret Recv_Error) w
      else case rx w of
         [] \<Rightarrow> if Client_Silent \<in> obstacles w then Q Blocked w else Q (Ret (Got [])) w
       | Rx_Intr # rest \<Rightarrow> Q (Ret Recv_Eintr) (w\<lparr>rx := rest\<rparr>)
       | Rx_Err # rest \<Rightarrow> Q (Ret Recv_Error) (w\<lparr>rx := rest\<rparr>)
       | Rx_Data bs # rest \<Rightarrow>
           if length bs \<le> n then Q (Ret (Got bs)) (w\<lparr>rx := rest\<rparr>)
           else Q (Ret (Got (take n bs))) (w\<lparr>rx := Rx_Data (drop n bs) # rest\<rparr>))"
  by (auto simp: wp_def recvM_def split: list.splits rx_event.splits)

lemma wp_sendM [wp_rules]:
  "wp (sendM bs) Q w =
     (if \<not> sock_usable w then Q (Ret (- 1)) w
      else case tx w of
         [] \<Rightarrow> if Client_Stalled \<in> obstacles w \<and> bs \<noteq> [] then Q Blocked w
           else Q (Ret (int (length bs))) (w\<lparr>out := out w @ bs\<rparr>)
       | Tx_Short k # rest \<Rightarrow>
           Q (Ret (int (min k (length bs)))) (w\<lparr>out := out w @ take k bs, tx := rest\<rparr>)
       | Tx_Err # rest \<Rightarrow> Q (Ret (- 1)) (w\<lparr>tx := rest\<rparr>)
       | Tx_Pipe # rest \<Rightarrow>
           Q (if No_Sigpipe \<in> obstacles w then Ret (- 1) else Killed SIGPIPE) (w\<lparr>tx := rest\<rparr>))"
  by (auto simp: wp_def sendM_def split: list.splits tx_event.splits)

lemma wp_close_client [wp_rules]: "wp close_client Q w = Q (Ret ()) (w\<lparr>closes := Suc (closes w)\<rparr>)"
  by (simp add: close_client_def)

lemma wp_set_type_Request [wp_rules]:
  "wp (set_type_Request n) Q w = Q (Ret ()) (w\<lparr>w_args := (w_args w)\<lparr>type_Request := n\<rparr>\<rparr>)"
  by (simp add: set_type_Request_def)

lemma wp_open_file [wp_rules]:
  "wp (open_file env path) Q w =
     (if os_open env path then Q (Ret True) (w\<lparr>file_open := True\<rparr>) else Q (Ret False) w)"
  by (simp add: wp_def open_file_def)

lemma wp_close_file [wp_rules]:
  "wp close_file Q w = Q (Ret ()) (w\<lparr>file_open := False, file_lock := False\<rparr>)"
  by (simp add: close_file_def)

lemma wp_lockf_lock [wp_rules]:
  "wp lockf_lock Q w =
     (if File_Locked \<in> obstacles w then Q Blocked w else Q (Ret ()) (w\<lparr>file_lock := True\<rparr>))"
  by (simp add: wp_def lockf_lock_def)

lemma wp_lockf_unlock [wp_rules]: "wp lockf_unlock Q w = Q (Ret ()) (w\<lparr>file_lock := False\<rparr>)"
  by (simp add: lockf_unlock_def)

lemma wp_mutex_lock [wp_rules]:
  "wp mutex_lock Q w = (if p_mutex w then Q Blocked w else Q (Ret ()) (w\<lparr>p_mutex := True\<rparr>))"
  by (simp add: wp_def mutex_lock_def)

lemma wp_mutex_unlock [wp_rules]: "wp mutex_unlock Q w = Q (Ret ()) (w\<lparr>p_mutex := False\<rparr>)"
  by (simp add: mutex_unlock_def)

lemma wp_log_calls [wp_rules]:
  "wp log_token Q w = Q (if Log_No_Token \<in> obstacles w then Blocked else Ret ()) w"
  "wp log_lock Q w = Q (if Log_Mutex_Held \<in> obstacles w then Blocked else Ret ()) w"
  "wp log_pipe Q w = Q (if Log_Pipe_Full \<in> obstacles w then Blocked
     else if Log_No_Reader \<in> obstacles w then Killed SIGPIPE else Ret ()) w"
  by (simp_all add: wp_def log_token_def log_lock_def log_pipe_def)

lemma wp_log_message [wp_rules]: "wp (log_message m) Q w = Q (Ret ()) (w\<lparr>plog := plog w @ [m]\<rparr>)"
  by (simp add: log_message_def)

text \<open>Running the calls on a state where they succeed.\<close>

lemma call_runs [prog_simps]:
  "oom w = [] \<Longrightarrow> callocM b w = (Ret True, w\<lparr>live := b # live w\<rparr>)"
  "b \<in> set (live w) \<Longrightarrow> freeM b w = (Ret (), w\<lparr>live := remove1 b (live w)\<rparr>)"
  "lib_alloc b w = (Ret (), w\<lparr>live := b # live w\<rparr>)"
  "sock_usable w \<Longrightarrow> tx w = [] \<Longrightarrow> Client_Stalled \<notin> obstacles w \<Longrightarrow>
     sendM bs w = (Ret (int (length bs)), w\<lparr>out := out w @ bs\<rparr>)"
  "close_client w = (Ret (), w\<lparr>closes := Suc (closes w)\<rparr>)"
  "set_type_Request n w = (Ret (), w\<lparr>w_args := (w_args w)\<lparr>type_Request := n\<rparr>\<rparr>)"
  "close_file w = (Ret (), w\<lparr>file_open := False, file_lock := False\<rparr>)"
  "File_Locked \<notin> obstacles w \<Longrightarrow> lockf_lock w = (Ret (), w\<lparr>file_lock := True\<rparr>)"
  "lockf_unlock w = (Ret (), w\<lparr>file_lock := False\<rparr>)"
  "\<not> p_mutex w \<Longrightarrow> mutex_lock w = (Ret (), w\<lparr>p_mutex := True\<rparr>)"
  "mutex_unlock w = (Ret (), w\<lparr>p_mutex := False\<rparr>)"
  "Log_No_Token \<notin> obstacles w \<Longrightarrow> log_token w = (Ret (), w)"
  "Log_Mutex_Held \<notin> obstacles w \<Longrightarrow> log_lock w = (Ret (), w)"
  "Log_Pipe_Full \<notin> obstacles w \<Longrightarrow> Log_No_Reader \<notin> obstacles w \<Longrightarrow> log_pipe w = (Ret (), w)"
  "log_message m w = (Ret (), w\<lparr>plog := plog w @ [m]\<rparr>)"
  by (simp_all add: callocM_def freeM_def lib_alloc_def sendM_def close_client_def
      set_type_Request_def close_file_def lockf_lock_def lockf_unlock_def mutex_lock_def
      mutex_unlock_def log_token_def log_lock_def log_pipe_def log_message_def)

subsection \<open>Frames\<close>

text \<open>
  The blocks that the handler itself frees at the end of a request. \<open>frame\<close> relates two worlds
  between which a helper ran: the helper may leave blocks of its own behind, receive and send,
  but the handler's blocks, the descriptor, the locks and the log are as they were. \<open>others\<close> are
  the blocks that are not the handler's: nothing frees what a helper leaves behind.
\<close>

definition core :: "blk set" where
  "core = {Blk_Args, Blk_Ip, Blk_Buf, Blk_Path, Blk_Msg}"

definition core_live :: "world \<Rightarrow> blk list" where
  "core_live w = filter (\<lambda>b. b \<in> core) (live w)"

definition others :: "world \<Rightarrow> blk list" where
  "others w = filter (\<lambda>b. b \<notin> core) (live w)"

definition frame :: "world \<Rightarrow> world \<Rightarrow> bool" where
  "frame w w' \<longleftrightarrow> core_live w' = core_live w \<and> w_args w' = w_args w \<and>
     ip_buffer w' = ip_buffer w \<and> cwd w' = cwd w \<and> DOS_PROTECTION w' = DOS_PROTECTION w \<and>
     closes w' = closes w \<and> file_open w' = file_open w \<and> file_lock w' = file_lock w \<and>
     p_mutex w' = p_mutex w \<and> plog w' = plog w \<and> obstacles w' = obstacles w"

text \<open>How a call on the client's socket stops: by the signal of a connection that was reset, or by
  waiting for the client for ever.\<close>

primrec net_stop :: "world \<Rightarrow> 'a res \<Rightarrow> bool" where
  "net_stop w (Ret x) = False"
| "net_stop w (Exit n) = False"
| "net_stop w Thread_Exit = False"
| "net_stop w (Killed n) = (n = SIGPIPE \<and> No_Sigpipe \<notin> obstacles w)"
| "net_stop w (UB e) = False"
| "net_stop w Blocked = (Client_Silent \<in> obstacles w \<or> Client_Stalled \<in> obstacles w)"

lemma net_stop_frame: "frame w w' \<Longrightarrow> net_stop w' r = net_stop w r"
  by (cases r) (simp_all add: frame_def)

lemma net_stop_upd [simp]:
  "net_stop (w\<lparr>rx := x\<rparr>) r = net_stop w r" "net_stop (w\<lparr>tx := y\<rparr>) r = net_stop w r"
  "net_stop (w\<lparr>live := l\<rparr>) r = net_stop w r" "net_stop (w\<lparr>oom := m\<rparr>) r = net_stop w r"
  "net_stop (w\<lparr>out := z\<rparr>) r = net_stop w r" "net_stop (w\<lparr>w_args := a\<rparr>) r = net_stop w r"
  by (cases r; simp)+

lemma frame_obstacles: "frame w w' \<Longrightarrow> obstacles w' = obstacles w"
  by (simp add: frame_def)

lemma frame_refl [simp]: "frame w w"
  by (simp add: frame_def)

lemma frame_trans: "frame u v \<Longrightarrow> frame v w \<Longrightarrow> frame u w"
  by (simp add: frame_def)

lemma core_mem: "b \<in> core \<Longrightarrow> b \<in> set (live w) \<longleftrightarrow> b \<in> set (core_live w)"
  by (simp add: core_live_def)

lemma filter_remove1_other: "\<not> P x \<Longrightarrow> filter P (remove1 x xs) = filter P xs"
  by (induction xs) auto

lemma in_core:
  "Blk_Args \<in> core" "Blk_Ip \<in> core" "Blk_Buf \<in> core" "Blk_Path \<in> core" "Blk_Msg \<in> core"
  by (simp_all add: core_def)

lemma others_upd [simp]:
  "others (w\<lparr>rx := r\<rparr>) = others w" "others (w\<lparr>tx := t\<rparr>) = others w"
  "others (w\<lparr>oom := m\<rparr>) = others w" "others (w\<lparr>out := s\<rparr>) = others w"
  "others (w\<lparr>w_args := a\<rparr>) = others w" "others (w\<lparr>closes := n\<rparr>) = others w"
  "others (w\<lparr>file_open := f\<rparr>) = others w" "others (w\<lparr>file_lock := f\<rparr>) = others w"
  "others (w\<lparr>p_mutex := f\<rparr>) = others w" "others (w\<lparr>plog := p\<rparr>) = others w"
  by (simp_all add: others_def)

lemma others_core [simp]:
  "b \<in> core \<Longrightarrow> others (w\<lparr>live := b # l\<rparr>) = others (w\<lparr>live := l\<rparr>)"
  "b \<in> core \<Longrightarrow> others (w\<lparr>live := remove1 b l\<rparr>) = others (w\<lparr>live := l\<rparr>)"
  by (simp_all add: others_def filter_remove1_other)

lemma others_live [simp]: "others (w\<lparr>live := live w\<rparr>) = others w"
  by (simp add: others_def)

lemma frame_upd [simp]:
  "frame v (w\<lparr>rx := r\<rparr>) = frame v w" "frame v (w\<lparr>tx := t\<rparr>) = frame v w"
  "frame v (w\<lparr>oom := m\<rparr>) = frame v w" "frame v (w\<lparr>out := s\<rparr>) = frame v w"
  by (simp_all add: frame_def core_live_def)

lemma frame_live [simp]:
  "b \<notin> core \<Longrightarrow> frame v (w\<lparr>live := b # l\<rparr>) = frame v (w\<lparr>live := l\<rparr>)"
  "b \<notin> core \<Longrightarrow> frame v (w\<lparr>live := remove1 b l\<rparr>) = frame v (w\<lparr>live := l\<rparr>)"
  by (simp_all add: frame_def core_live_def filter_remove1_other)

lemma frame_live_id [simp]: "frame v (w\<lparr>live := live w\<rparr>) = frame v w"
  by (simp add: frame_def core_live_def)

lemma not_core [simp]:
  "Blk_Fullpath \<notin> core" "Blk_Line \<notin> core" "Blk_Command \<notin> core" "Blk_Mime \<notin> core"
  "Blk_Base_Abs \<notin> core" "Blk_Path_Abs \<notin> core"
  by (simp_all add: core_def)

lemma callocM_frame:
  "b \<notin> core \<Longrightarrow> wp (callocM b)
     (\<lambda>r w'. frame w w' \<and> (r = Ret False \<or> r = Ret True \<and> b \<in> set (live w'))) w"
  by (simp add: wp_callocM split: list.split)

end
