(* ===== verification/Utils.thy ===== *)
theory Utils
  imports World
begin

text \<open>
  \<open>general/lib/utils/utils.c\<close>: string and number helpers, the two assertions, the comparison
  function of the \<open>bsearch\<close> tables, the end-of-line search of the request reader and the copy
  of a configuration. A function that can \<open>exit\<close> or crash has a result of type \<open>'a res\<close>.
\<close>

section \<open>Definitions\<close>

text \<open>\<open>concat\<close>: a new block (\<open>b\<close> names the pointer it is assigned to), \<open>strcpy\<close> and \<open>strcat\<close>.
  The result is NULL when the allocation fails.\<close>

definition concat :: "blk \<Rightarrow> string \<Rightarrow> string \<Rightarrow> (world, string option) prog" where
  "concat b s1 s2 =
     bindM (callocM b) (\<lambda>ok.
     if \<not> ok then retM None
     else bindM (stopM (strcpy (length s1 + length s2 + 1) s1)) (\<lambda>r.
          bindM (stopM (strcpy (length s1 + length s2 + 1) (r @ s2))) (\<lambda>r'.
          retM (Some r'))))"

text \<open>\<open>Assert\<close> ends the process with status 3, \<open>Assert_nb\<close> only reports; 0 is success.\<close>

definition Assert :: "bool \<Rightarrow> int res" where
  "Assert b = (if \<not> b then Exit 3 else Ret 0)"

definition Assert_nb :: "bool \<Rightarrow> int" where
  "Assert_nb b = (if b then 0 else 1)"

definition ut_strtoint :: "string \<Rightarrow> int res" where
  "ut_strtoint str =
     (let (v, rest) = strtol str 
      in bind_res (Assert (strcmp rest [] = 0)) (\<lambda>_. Ret (to_int32 v)))"

text \<open>
  The two implementations behind \<open>ut_strtok\<close>. On Linux the context is the rest of the string;
  on Windows it is a pointer that is NULL once the string is used up.
\<close>

definition ut_strtok :: "string \<Rightarrow> string \<Rightarrow> string option \<times> string" where
  "ut_strtok str delims = strtok_r str delims"

definition ut_win_strtok_r ::
  "string option \<Rightarrow> string \<Rightarrow> string option \<Rightarrow> string option \<times> string option" where
  "ut_win_strtok_r str delims save =
     (case (case str of None \<Rightarrow> save | Some s \<Rightarrow> Some s) of
        None \<Rightarrow> (None, save)
      | Some s \<Rightarrow>
          (let t = dropWhile (\<lambda>c. c \<in> set delims) s;
               d = dropWhile (\<lambda>c. c \<notin> set delims) t
           in if t = [] then (None, None)
              else (Some (takeWhile (\<lambda>c. c \<notin> set delims) t),
                    if d = [] then None else Some (tl d))))"

text \<open>\<open>struct dict_entry\<close> and its comparison function.\<close>

type_synonym dict_entry = "string \<times> int"

definition compare :: "dict_entry \<Rightarrow> dict_entry \<Rightarrow> int" where
  "compare e1 e2 = strcmp (fst e1) (fst e2)"

text \<open>
  \<open>ut_get_line\<close> looks for the first newline among the first \<open>size\<close> bytes and overwrites the
  byte in front of it with NUL. A newline at offset 0 has no byte in front of it.
\<close>

definition ut_get_line :: "char list \<Rightarrow> nat \<Rightarrow> (int \<times> char list) res" where
  "ut_get_line buf n =
     (case memchr buf NL n of
        None \<Rightarrow> Ret (0, buf)
      | Some 0 \<Rightarrow> UB Out_Of_Bounds
      | Some (Suc p) \<Rightarrow> Ret (1, buf[p := NUL]))"

definition ut_clone_configs :: "Configs \<Rightarrow> Configs \<Rightarrow> Configs res" where
  "ut_clone_configs c n =
     bind_res (array_str BUFFER_SIZE (root_dir c)) (\<lambda>d.
     bind_res (strcpy BUFFER_SIZE d) (\<lambda>d'.
     Ret (n\<lparr>port_number := port_number c, mode_concurrency := mode_concurrency c,
            used_OPTARG := used_OPTARG c, root_dir := d'\<rparr>)))"

text \<open>\<open>getcwd\<close> into the global array; \<open>None\<close> when it fails for another reason than its length.\<close>

definition ut_get_cwd :: "string option \<Rightarrow> string res" where
  "ut_get_cwd dir = (case dir of
       None \<Rightarrow> Exit (- 2)
     | Some d \<Rightarrow> if length d < BUFFER_SIZE then Ret d else Exit (- 2))"

section \<open>Lemmas\<close>

lemma Assert_Ret_iff [simp]: "Assert b = Ret v \<longleftrightarrow> b \<and> v = 0"
  by (auto simp: Assert_def)

lemma bind_Assert [simp]: "bind_res (Assert b) f = (if b then f 0 else Exit 3)"
  by (simp add: Assert_def)

lemma Assert_nb_0 [simp]: "Assert_nb b = 0 \<longleftrightarrow> b"
  by (simp add: Assert_nb_def)

subsection \<open>The tokenizers\<close>

text \<open>
  The contract of \<open>ut_strtok\<close>: a state that stands for the rest of the string (\<open>rest\<close>), and a
  step that finds the next token of it as \<open>strtok_r\<close> does. Any two implementations that keep
  the contract find the same tokens.
\<close>

fun tokens :: "nat \<Rightarrow> string \<Rightarrow> string \<Rightarrow> string option list" where
  "tokens 0 s ds = []"
| "tokens (Suc n) s ds = fst (strtok_r s ds) # tokens n (snd (strtok_r s ds)) ds"

fun next_tokens ::
  "('t \<Rightarrow> string \<Rightarrow> string option \<times> 't) \<Rightarrow> nat \<Rightarrow> 't \<Rightarrow> string \<Rightarrow> string option list" where
  "next_tokens f 0 t ds = []"
| "next_tokens f (Suc n) t ds = fst (f t ds) # next_tokens f n (snd (f t ds)) ds"

locale tokenizer =
  fixes rest :: "'t \<Rightarrow> string"
    and tok_next :: "'t \<Rightarrow> string \<Rightarrow> string option \<times> 't"
  assumes next_token: "fst (tok_next t ds) = fst (strtok_r (rest t) ds)"
    and next_rest: "rest (snd (tok_next t ds)) = snd (strtok_r (rest t) ds)"
begin

lemma next_tokens_eq: "next_tokens tok_next n t ds = tokens n (rest t) ds"
  by (induction n arbitrary: t) (simp_all add: next_token next_rest)

end

interpretation linux_tok: tokenizer "\<lambda>s. s" ut_strtok
  by (rule tokenizer.intro) (simp_all only: ut_strtok_def)

definition win_rest :: "string option \<Rightarrow> string" where
  "win_rest save = (case save of None \<Rightarrow> [] | Some s \<Rightarrow> s)"

lemma win_strtok_step:
  "fst (ut_win_strtok_r None ds save) = fst (strtok_r (win_rest save) ds)"
  "win_rest (snd (ut_win_strtok_r None ds save)) = snd (strtok_r (win_rest save) ds)"
proof -
  have rest: "(if d = [] then [] else tl d) = drop 1 d" for d :: string
    by (cases d) simp_all
  have nil: "win_rest None = []" "strtok_r [] ds = (None, [])"
    by (simp_all add: win_rest_def strtok_r_def)
  have some: "win_rest (Some s) = s" for s
    by (simp add: win_rest_def)
  show "fst (ut_win_strtok_r None ds save) = fst (strtok_r (win_rest save) ds)"
    by (cases save)
      (simp_all only: nil some dropWhile.simps(1) if_True simp_thms ut_win_strtok_r_def strtok_r_def Let_def option.case if_distrib
        [of fst] fst_conv)
  show "win_rest (snd (ut_win_strtok_r None ds save)) = snd (strtok_r (win_rest save) ds)"
    by (cases save)
      (simp_all only: nil some rest dropWhile.simps(1) drop_Nil if_True simp_thms ut_win_strtok_r_def strtok_r_def Let_def option.case
        if_distrib [of snd] if_distrib [of win_rest] snd_conv)
qed

interpretation win_tok: tokenizer win_rest "\<lambda>save ds. ut_win_strtok_r None ds save"
  by (rule tokenizer.intro) (rule win_strtok_step)+

text \<open>The first call, which is given the string.\<close>

lemma win_first_call: "ut_win_strtok_r (Some s) ds save = ut_win_strtok_r None ds (Some s)"
  by (simp add: ut_win_strtok_r_def)

subsection \<open>Numbers\<close>

lemma ut_strtoint_show: "- (2 ^ 31) \<le> n \<Longrightarrow> n < 2 ^ 31 \<Longrightarrow> ut_strtoint (show_int n) = Ret n"
  by (simp add: ut_strtoint_def strtol_show_int clamp_long_id to_int32_id)

lemma ut_strtoint_range: "ut_strtoint s = Ret n \<Longrightarrow> - (2 ^ 31) \<le> n \<and> n < 2 ^ 31"
  using to_int32_range by (auto simp: ut_strtoint_def split: prod.splits if_splits)

lemma ut_strtoint_cases: "(\<exists>n. ut_strtoint s = Ret n) \<or> ut_strtoint s = Exit 3"
  by (auto simp: ut_strtoint_def split: prod.splits)

subsection \<open>Lines\<close>

lemma ut_get_line_none:
  "NL \<notin> set (take n buf) \<Longrightarrow> ut_get_line buf n = Ret (0, buf)"
  by (simp add: ut_get_line_def memchr_None_iff [THEN iffD2])

text \<open>A line of at least one character is cut one character before the newline.\<close>

lemma ut_get_line_found:
  assumes "NL \<notin> set l" and "Suc (length l) < n"
  shows "ut_get_line (l @ c # NL # bs) n =
    (if c = NL then (if l = [] then UB Out_Of_Bounds
                     else Ret (1, butlast l @ NUL # c # NL # bs))
     else Ret (1, l @ NUL # NL # bs))"
proof (cases "c = NL")
  case True
  then have m: "memchr (l @ c # NL # bs) NL n = Some (length l)"
    using assms by (auto simp: memchr_Some_iff nth_append)
  show ?thesis
  proof (cases l rule: rev_cases)
    case Nil
    with m True show ?thesis by (simp add: ut_get_line_def)
  next
    case (snoc k x)
    with m True show ?thesis by (simp add: ut_get_line_def)
  qed
next
  case False
  then have "memchr (l @ c # NL # bs) NL n = Some (Suc (length l))"
    using assms by (auto simp: memchr_Some_iff nth_append)
  with False show ?thesis by (simp add: ut_get_line_def list_update_append)
qed

lemma ut_get_line_length: "ut_get_line buf n = Ret (r, buf') \<Longrightarrow> length buf' = length buf"
  by (auto simp: ut_get_line_def split: option.splits nat.splits)

lemma ut_get_line_code: "ut_get_line buf n = Ret (r, buf') \<Longrightarrow> r = 0 \<and> buf' = buf \<or> r = 1"
  by (auto simp: ut_get_line_def split: option.splits nat.splits)

subsection \<open>Copies of configurations\<close>

lemma ut_clone_configs_Ret:
  "length (root_dir c) < BUFFER_SIZE \<Longrightarrow>
     ut_clone_configs c n =
       Ret (n\<lparr>port_number := port_number c, mode_concurrency := mode_concurrency c,
              used_OPTARG := used_OPTARG c, root_dir := root_dir c\<rparr>)"
  by (simp add: ut_clone_configs_def array_str_def strcpy_def)

lemma wp_concat [wp_rules]:
  "wp (concat b s1 s2) Q w =
     wp (callocM b) (seq_post (\<lambda>ok. retM (if ok then Some (s1 @ s2) else None)) Q) w"
proof -
  have "concat b s1 s2 = bindM (callocM b) (\<lambda>ok. retM (if ok then Some (s1 @ s2) else None))"
    unfolding concat_def strcpy_def by (intro arg_cong [where f = "bindM _"] ext) (simp add: bindM_def)
  then show ?thesis by (simp add: wp_bindM)
qed

end
