(* ===== verification/ConfigFile.thy ===== *)
theory ConfigFile
  imports Utils
begin

text \<open>
  \<open>general/lib/io/config_file.c\<close>: the option values (\<open>conf_opts_*\<close>), the command line
  (\<open>conf_read_opt\<close>) and the configuration file (\<open>conf_parseConfigFile\<close>).

  The file is a string (\<open>None\<close> when \<open>fopen\<close> fails). The globals the functions write
  (\<open>ip_buffer\<close>, \<open>DOS_PROTECTION\<close>) are passed and returned. A NULL token that reaches
  \<open>strtol\<close>, \<open>strcmp\<close>, \<open>strncpy\<close> or \<open>strlen\<close> is \<open>UB Null_Deref\<close>.

  The second half relates the parser to an abstract one: a file is a list of options
  (\<open>conf_opt\<close>), written out by \<open>render\<close>; parsing the written file sets what the options say
  when each kind is there exactly once and ends the process otherwise.
\<close>

section \<open>Option values\<close>

definition conf_opts_port_number :: "string \<Rightarrow> int res" where
  "conf_opts_port_number opt =
     bind_res (ut_strtoint opt) (\<lambda>port.
     bind_res (Assert (port \<le> 65535)) (\<lambda>_. Ret port))"

definition conf_opts_mode_concurrency :: "string \<Rightarrow> int res" where
  "conf_opts_mode_concurrency opt =
     bind_res (Assert ((strcmp opt ''Thread'' \<noteq> 0) \<noteq> (strcmp opt ''Process'' \<noteq> 0))) (\<lambda>_.
     if strcmp opt ''Thread'' = 0 then Ret M_THREAD else Ret M_PROCESS)"

definition conf_opts_root_dir :: "string \<Rightarrow> string" where
  "conf_opts_root_dir opt = opt"

section \<open>The command line\<close>

record opt_state =
  o_conf :: Configs
  o_ip :: string
  o_dos :: int
  o_daemon :: bool

text \<open>One turn of the \<open>switch\<close>; \<open>Inl\<close> is the \<open>return 1\<close> of an unknown option.\<close>

definition conf_opt_case :: "opt_state \<Rightarrow> char \<times> string \<Rightarrow> (opt_state + opt_state) res" where
  "conf_opt_case st = (\<lambda>(opt, optarg).
     if opt = CHR ''p'' then
       bind_res (conf_opts_port_number optarg) (\<lambda>p.
       Ret (Inr (st\<lparr>o_conf := (o_conf st)\<lparr>port_number := word_of_int p\<rparr>\<rparr>)))
     else if opt = CHR ''m'' then
       bind_res (conf_opts_mode_concurrency optarg) (\<lambda>m.
       Ret (Inr (st\<lparr>o_conf := (o_conf st)\<lparr>mode_concurrency := m\<rparr>\<rparr>)))
     else if opt = CHR ''s'' then Ret (Inr (st\<lparr>o_dos := 1\<rparr>))
     else if opt = CHR ''e'' then Ret (Inr (st\<lparr>o_daemon := True\<rparr>))
     else if opt = CHR ''i'' then
       (if length optarg > BUFFER_SIZE - 1 then Ret (Inr st)
        else bind_res (strcpy BUFFER_SIZE optarg) (\<lambda>s. Ret (Inr (st\<lparr>o_ip := s\<rparr>))))
     else if opt = CHR ''d'' then
       Ret (Inr (st\<lparr>o_conf := (o_conf st)\<lparr>used_OPTARG := 1,
                                          root_dir := strncpy optarg BUFFER_SIZE\<rparr>\<rparr>))
     else Ret (Inl st))"

fun conf_opt_loop :: "opt_state \<Rightarrow> (char \<times> string) list \<Rightarrow> (opt_state + opt_state) res" where
  "conf_opt_loop st [] = Ret (Inr st)"
| "conf_opt_loop st (o1 # os) =
     bind_res (conf_opt_case st o1) (\<lambda>r. case r of
        Inl st' \<Rightarrow> Ret (Inl st')
      | Inr st' \<Rightarrow> conf_opt_loop st' os)"

text \<open>
  \<open>argv\<close> is given without the program's name. \<open>daemon\<close> is what \<open>run_in_daemon\<close> does when it is
  called. The result is the returned status and the state.
\<close>

definition conf_read_opt :: "int res \<Rightarrow> string list \<Rightarrow> opt_state \<Rightarrow> (int \<times> opt_state) res" where
  "conf_read_opt daemon argv st =
     bind_res (conf_opt_loop (st\<lparr>o_daemon := False\<rparr>) (getopt ''se'' ''mdpi'' argv)) (\<lambda>r.
     case r of
       Inl st' \<Rightarrow> Ret (1, st')
     | Inr st' \<Rightarrow>
         if o_ip st' = [] then Exit (- 1)
         else (let st'' = st'\<lparr>o_conf := (o_conf st')\<lparr>hostname := Host_Ip_Buffer\<rparr>\<rparr>
               in if o_daemon st'' then bind_res daemon (\<lambda>_. Ret (0, st'')) else Ret (0, st'')))"

section \<open>The configuration file\<close>

text \<open>\<open>getline\<close>: the lines of the file, each with its newline.\<close>

fun getlines :: "string \<Rightarrow> string list" where
  "getlines [] = []"
| "getlines (c # cs) =
     (if c = NL then [NL] # getlines cs
      else case getlines cs of
             [] \<Rightarrow> [[c]]
           | l # ls \<Rightarrow> (c # l) # ls)"

definition strip_eol :: "string \<Rightarrow> string" where
  "strip_eol ln = rev (dropWhile (\<lambda>c. c = NL \<or> c = CR) (rev ln))"

text \<open>
  The reading loop keeps the lines in an array of pointers that is doubled when it is full;
  \<open>mem n\<close> says whether an array of \<open>n\<close> pointers can be allocated. \<open>strdup\<close> copies up to the
  first NUL.
\<close>

fun conf_read_lines :: "(nat \<Rightarrow> bool) \<Rightarrow> nat \<Rightarrow> string list \<Rightarrow> string list \<Rightarrow> string list option" where
  "conf_read_lines mem lmax arr [] = Some arr"
| "conf_read_lines mem lmax arr (ln # lns) =
     (let arr' = arr @ [cstr (strip_eol ln)]
      in if length arr' = lmax
         then if mem (lmax * 2) then conf_read_lines mem (lmax * 2) arr' lns else None
         else conf_read_lines mem lmax arr' lns)"

record parse_state =
  p_conf :: Configs
  p_ip :: string
  count_port :: nat
  count_ip :: nat
  count_root_dir :: nat
  count_mode :: nat
  wrong :: int

text \<open>The body of the loop over the lines.\<close>

definition conf_parse_line :: "parse_state \<Rightarrow> string \<Rightarrow> parse_state res" where
  "conf_parse_line st ln =
     (case ut_strtok ln '' '' of
        (None, _) \<Rightarrow> Ret st
      | (Some single_word, saveptr1) \<Rightarrow>
          if strcmp ''port'' single_word = 0 then
            (let st1 = st\<lparr>count_port := count_port st + 1\<rparr>;
                 v = fst (ut_strtok saveptr1 '' '');
                 st2 = st1\<lparr>wrong := or (wrong st1) (Assert_nb (v \<noteq> None))\<rparr>
             in case v of
                  None \<Rightarrow> UB Null_Deref
                | Some val \<Rightarrow>
                    bind_res (conf_opts_port_number val) (\<lambda>p.
                    Ret (st2\<lparr>p_conf := (p_conf st2)\<lparr>port_number := word_of_int p\<rparr>\<rparr>)))
          else if strcmp ''mode_concurrency'' single_word = 0 then
            (let st1 = st\<lparr>count_mode := count_mode st + 1\<rparr>;
                 v = fst (ut_strtok saveptr1 '' '');
                 st2 = st1\<lparr>wrong := or (wrong st1) (Assert_nb (v \<noteq> None))\<rparr>
             in case v of
                  None \<Rightarrow> UB Null_Deref
                | Some val \<Rightarrow>
                    bind_res (conf_opts_mode_concurrency val) (\<lambda>m.
                    Ret (st2\<lparr>p_conf := (p_conf st2)\<lparr>mode_concurrency := m\<rparr>\<rparr>)))
          else if strcmp ''root_dir'' single_word = 0 then
            (let st1 = st\<lparr>count_root_dir := count_root_dir st + 1\<rparr>;
                 v = fst (ut_strtok saveptr1 [CHR 0x22]);
                 st2 = st1\<lparr>wrong := or (wrong st1) (Assert_nb (v \<noteq> None))\<rparr>
             in case v of
                  None \<Rightarrow> UB Null_Deref
                | Some val \<Rightarrow>
                    Ret (st2\<lparr>p_conf := (p_conf st2)\<lparr>root_dir := strncpy val BUFFER_SIZE\<rparr>\<rparr>))
          else if strcmp ''external_ip'' single_word = 0 then
            (let st1 = st\<lparr>count_ip := count_ip st + 1\<rparr>;
                 v = fst (ut_strtok saveptr1 [CHR 0x22]);
                 st2 = st1\<lparr>wrong := or (wrong st1) (Assert_nb (v \<noteq> None))\<rparr>
             in case v of
                  None \<Rightarrow> UB Null_Deref
                | Some val \<Rightarrow>
                    if length val > BUFFER_SIZE - 1 then Ret (st2\<lparr>wrong := or (wrong st2) 1\<rparr>)
                    else Ret (st2\<lparr>p_ip := strncpy val (BUFFER_SIZE - 1)\<rparr>))
          else Exit 3)"

fun conf_parse_lines :: "parse_state \<Rightarrow> string list \<Rightarrow> parse_state res" where
  "conf_parse_lines st [] = Ret st"
| "conf_parse_lines st (ln # lns) =
     bind_res (conf_parse_line st ln) (\<lambda>st'. conf_parse_lines st' lns)"

definition conf_parseConfigFile ::
  "(nat \<Rightarrow> bool) \<Rightarrow> string option \<Rightarrow> Configs \<Rightarrow> string \<Rightarrow> (int \<times> Configs \<times> string) res" where
  "conf_parseConfigFile mem content config ip =
     (case content of
        None \<Rightarrow> bind_res (Assert False) (\<lambda>_. Ret (0, config, ip))
      | Some text \<Rightarrow>
          bind_res (Assert (mem 1024)) (\<lambda>_.
          case conf_read_lines mem 1024 [] (getlines text) of
            None \<Rightarrow> Ret (- 1, config, ip)
          | Some lns \<Rightarrow>
              bind_res (conf_parse_lines
                  \<lparr>p_conf = config, p_ip = ip, count_port = 0, count_ip = 0,
                   count_root_dir = 0, count_mode = 0, wrong = 0\<rparr> lns) (\<lambda>st.
              if Assert_nb (count_ip st = 1 \<and> count_mode st = 1 \<and> count_port st = 1 \<and>
                            count_root_dir st = 1 \<and> wrong st = 0) = 1
              then Exit 1
              else Ret (0, (p_conf st)\<lparr>hostname := Host_Ip_Buffer, used_OPTARG := 0\<rparr>, p_ip st))))"

section \<open>Lines\<close>

lemma getlines_append_line: "NL \<notin> set l \<Longrightarrow> getlines (l @ NL # rest) = (l @ [NL]) # getlines rest"
  by (induction l) auto

lemma getlines_concat:
  "(\<And>l. l \<in> set ls \<Longrightarrow> NL \<notin> set l) \<Longrightarrow>
     getlines (List.concat (map (\<lambda>l. l @ [NL]) ls)) = map (\<lambda>l. l @ [NL]) ls"
  by (induction ls) (simp_all add: getlines_append_line)

lemma strip_eol_line: "l = [] \<or> (last l \<noteq> NL \<and> last l \<noteq> CR) \<Longrightarrow> strip_eol (l @ [NL]) = l"
  by (cases l rule: rev_cases) (auto simp: strip_eol_def)

lemma conf_read_lines_all:
  "(\<And>n. mem n) \<Longrightarrow> conf_read_lines mem lmax arr lns = Some (arr @ map (\<lambda>l. cstr (strip_eol l)) lns)"
  by (induction lns arbitrary: lmax arr) (simp_all add: Let_def)

section \<open>Abstract options\<close>

datatype conf_opt = Opt_Port int | Opt_Mode int | Opt_Root string | Opt_Ip string | Opt_Blank nat

fun render_opt :: "conf_opt \<Rightarrow> string" where
  "render_opt (Opt_Port p) = ''port '' @ show_int p"
| "render_opt (Opt_Mode m) =
     ''mode_concurrency '' @ (if m = M_THREAD then ''Thread'' else ''Process'')"
| "render_opt (Opt_Root d) = ''root_dir '' @ CHR 0x22 # d @ [CHR 0x22]"
| "render_opt (Opt_Ip h) = ''external_ip '' @ h"
| "render_opt (Opt_Blank n) = replicate n (CHR '' '')"

definition render :: "conf_opt list \<Rightarrow> string" where
  "render opts = List.concat (map (\<lambda>l. l @ [NL]) (map render_opt opts))"

definition plain :: "string \<Rightarrow> bool" where
  "plain s \<longleftrightarrow> s \<noteq> [] \<and> CHR 0x22 \<notin> set s \<and> NL \<notin> set s \<and> NUL \<notin> set s"

fun wf_opt :: "conf_opt \<Rightarrow> bool" where
  "wf_opt (Opt_Port p) \<longleftrightarrow> - (2 ^ 31) \<le> p \<and> p \<le> 65535"
| "wf_opt (Opt_Mode m) \<longleftrightarrow> m = M_THREAD \<or> m = M_PROCESS"
| "wf_opt (Opt_Root d) \<longleftrightarrow> plain d"
| "wf_opt (Opt_Ip h) \<longleftrightarrow> plain h \<and> last h \<noteq> CR \<and> length h < BUFFER_SIZE"
| "wf_opt (Opt_Blank n) \<longleftrightarrow> True"

text \<open>What an option sets.\<close>

fun apply_opt :: "parse_state \<Rightarrow> conf_opt \<Rightarrow> parse_state" where
  "apply_opt st (Opt_Port p) =
     st\<lparr>count_port := count_port st + 1, p_conf := (p_conf st)\<lparr>port_number := word_of_int p\<rparr>\<rparr>"
| "apply_opt st (Opt_Mode m) =
     st\<lparr>count_mode := count_mode st + 1, p_conf := (p_conf st)\<lparr>mode_concurrency := m\<rparr>\<rparr>"
| "apply_opt st (Opt_Root d) =
     st\<lparr>count_root_dir := count_root_dir st + 1,
        p_conf := (p_conf st)\<lparr>root_dir := take BUFFER_SIZE d\<rparr>\<rparr>"
| "apply_opt st (Opt_Ip h) = st\<lparr>count_ip := count_ip st + 1, p_ip := h\<rparr>"
| "apply_opt st (Opt_Blank n) = st"

lemma strtok_blank: "strtok_r (replicate n (CHR '' '')) '' '' = (None, [])"
  by (simp add: strtok_r_def dropWhile_replicate)

lemma strtok_key:
  assumes "key \<noteq> []" and "CHR '' '' \<notin> set key"
  shows "strtok_r (key @ CHR '' '' # rest) '' '' = (Some key, rest)"
  using assms by (intro strtok_r_word(1)) auto

lemma strtok_value:
  assumes "v \<noteq> []" and "CHR '' '' \<notin> set v"
  shows "fst (strtok_r v '' '') = Some v"
  using assms by (subst strtok_r_word(2)) auto

lemma strtok_plain: "plain v \<Longrightarrow> fst (strtok_r v [CHR 0x22]) = Some v"
  unfolding plain_def by (subst strtok_r_word(2)) auto

lemma strtok_quoted: "plain v \<Longrightarrow> fst (strtok_r (CHR 0x22 # v @ [CHR 0x22]) [CHR 0x22]) = Some v"
  unfolding plain_def by (subst strtok_r_skip, simp, subst strtok_r_word(1)) auto

lemma conf_opts_port_show:
  "- (2 ^ 31) \<le> p \<Longrightarrow> p \<le> 65535 \<Longrightarrow> conf_opts_port_number (show_int p) = Ret p"
  by (simp add: conf_opts_port_number_def ut_strtoint_show)

lemma conf_opts_mode_cases:
  "conf_opts_mode_concurrency s =
     (if s = ''Thread'' then Ret M_THREAD else if s = ''Process'' then Ret M_PROCESS else Exit 3)"
  by (auto simp: conf_opts_mode_concurrency_def)

lemma keyword_lines:
  "''port '' @ v = ''port'' @ CHR '' '' # v"
  "''mode_concurrency '' @ v = ''mode_concurrency'' @ CHR '' '' # v"
  "''root_dir '' @ v = ''root_dir'' @ CHR '' '' # v"
  "''external_ip '' @ v = ''external_ip'' @ CHR '' '' # v"
  by simp_all

lemma conf_parse_line_render:
  assumes "wf_opt opt"
  shows "conf_parse_line st (render_opt opt) = Ret (apply_opt st opt)"
proof (cases opt)
  case (Opt_Port p)
  have "fst (strtok_r (show_int p) '' '') = Some (show_int p)"
    by (rule strtok_value) (auto dest: show_int_not_special)
  with Opt_Port assms show ?thesis
    by (simp only: render_opt.simps keyword_lines)
      (simp add: conf_parse_line_def ut_strtok_def strtok_key conf_opts_port_show Let_def
        Assert_nb_def del: append.simps)
next
  case (Opt_Mode m)
  let ?v = "if m = M_THREAD then ''Thread'' else ''Process''"
  have "fst (strtok_r ?v '' '') = Some ?v" by (rule strtok_value) auto
  moreover have "conf_opts_mode_concurrency ?v = Ret m"
    using assms Opt_Mode by (auto simp: conf_opts_mode_cases)
  ultimately show ?thesis
    unfolding Opt_Mode render_opt.simps keyword_lines
    by (simp add: conf_parse_line_def ut_strtok_def strtok_key Let_def Assert_nb_def
        del: append.simps)
next
  case (Opt_Root d)
  with assms show ?thesis
    unfolding Opt_Root render_opt.simps keyword_lines
    by (simp add: conf_parse_line_def ut_strtok_def strtok_key strtok_quoted Let_def Assert_nb_def
        strncpy_def del: append.simps)
next
  case (Opt_Ip h)
  with assms show ?thesis
    unfolding Opt_Ip render_opt.simps keyword_lines
    by (simp add: conf_parse_line_def ut_strtok_def strtok_key strtok_plain Let_def Assert_nb_def
        strncpy_def BUFFER_SIZE_def del: append.simps)
next
  case (Opt_Blank n)
  then show ?thesis by (simp add: conf_parse_line_def ut_strtok_def strtok_blank)
qed

lemma conf_parse_lines_render:
  "list_all wf_opt opts \<Longrightarrow>
     conf_parse_lines st (map render_opt opts) = Ret (foldl apply_opt st opts)"
  by (induction opts arbitrary: st) (simp_all add: conf_parse_line_render)

lemma show_int_free: "x \<notin> set (show_int n)" if "x = NL \<or> x = CR \<or> x = NUL"
  using that show_int_not_special [of x n] by auto

lemma render_opt_chars:
  assumes "wf_opt opt"
  shows "NL \<notin> set (render_opt opt)" and "nul_free (render_opt opt)"
    and "render_opt opt = [] \<or> (last (render_opt opt) \<noteq> NL \<and> last (render_opt opt) \<noteq> CR)"
proof -
  show "NL \<notin> set (render_opt opt)"
    using assms by (cases opt) (auto simp: plain_def show_int_free)
  show "nul_free (render_opt opt)"
    using assms by (cases opt) (auto simp: plain_def show_int_free nul_free_def)
  show "render_opt opt = [] \<or> (last (render_opt opt) \<noteq> NL \<and> last (render_opt opt) \<noteq> CR)"
  proof (cases opt)
    case (Opt_Port p)
    have "last (show_int p) \<in> set (show_int p)" by simp
    then have "last (show_int p) \<noteq> NL \<and> last (show_int p) \<noteq> CR"
      using show_int_not_special by blast
    with Opt_Port show ?thesis by simp
  next
    case (Opt_Ip h)
    with assms have "h \<noteq> []" "last h \<noteq> CR" "last h \<noteq> NL"
      by (auto simp: plain_def dest: last_in_set)
    with Opt_Ip show ?thesis by simp
  next
    case (Opt_Blank n)
    then show ?thesis by (cases n rule: nat.exhaust) (auto simp: last_conv_nth)
  qed auto
qed

lemma render_lines:
  assumes "list_all wf_opt opts" and "\<And>n. mem n"
  shows "conf_read_lines mem 1024 [] (getlines (render opts)) = Some (map render_opt opts)"
proof -
  have "getlines (render opts) = map (\<lambda>l. l @ [NL]) (map render_opt opts)"
    unfolding render_def using assms(1)
    by (intro getlines_concat) (auto simp: list_all_iff render_opt_chars)
  then have "conf_read_lines mem 1024 [] (getlines (render opts)) =
      Some (map (\<lambda>o1. cstr (strip_eol (render_opt o1 @ [NL]))) opts)"
    using assms(2) by (simp add: conf_read_lines_all)
  also have "map (\<lambda>o1. cstr (strip_eol (render_opt o1 @ [NL]))) opts = map render_opt opts"
    using assms(1) by (auto simp: list_all_iff strip_eol_line render_opt_chars)
  finally show ?thesis .
qed

subsection \<open>Counting the options\<close>

fun is_port :: "conf_opt \<Rightarrow> bool" where
  "is_port (Opt_Port p) = True" | "is_port o1 = False"

fun is_mode :: "conf_opt \<Rightarrow> bool" where
  "is_mode (Opt_Mode m) = True" | "is_mode o1 = False"

fun is_root :: "conf_opt \<Rightarrow> bool" where
  "is_root (Opt_Root d) = True" | "is_root o1 = False"

fun is_ip :: "conf_opt \<Rightarrow> bool" where
  "is_ip (Opt_Ip h) = True" | "is_ip o1 = False"

definition once :: "('a \<Rightarrow> bool) \<Rightarrow> 'a list \<Rightarrow> bool" where
  "once P xs \<longleftrightarrow> length (filter P xs) = 1"

definition each_once :: "conf_opt list \<Rightarrow> bool" where
  "each_once opts \<longleftrightarrow> once is_port opts \<and> once is_mode opts \<and> once is_root opts \<and> once is_ip opts"

lemma apply_opt_counts:
  "count_port (apply_opt st o1) = count_port st + of_bool (is_port o1)"
  "count_mode (apply_opt st o1) = count_mode st + of_bool (is_mode o1)"
  "count_root_dir (apply_opt st o1) = count_root_dir st + of_bool (is_root o1)"
  "count_ip (apply_opt st o1) = count_ip st + of_bool (is_ip o1)"
  "wrong (apply_opt st o1) = wrong st"
  by (cases o1; simp)+

lemma foldl_counts:
  "count_port (foldl apply_opt st opts) = count_port st + length (filter is_port opts)"
  "count_mode (foldl apply_opt st opts) = count_mode st + length (filter is_mode opts)"
  "count_root_dir (foldl apply_opt st opts) = count_root_dir st + length (filter is_root opts)"
  "count_ip (foldl apply_opt st opts) = count_ip st + length (filter is_ip opts)"
  "wrong (foldl apply_opt st opts) = wrong st"
  by (induction opts arbitrary: st) (simp_all add: apply_opt_counts)

lemma apply_opt_keeps:
  "\<not> is_port o1 \<Longrightarrow> port_number (p_conf (apply_opt st o1)) = port_number (p_conf st)"
  "\<not> is_mode o1 \<Longrightarrow> mode_concurrency (p_conf (apply_opt st o1)) = mode_concurrency (p_conf st)"
  "\<not> is_root o1 \<Longrightarrow> root_dir (p_conf (apply_opt st o1)) = root_dir (p_conf st)"
  "\<not> is_ip o1 \<Longrightarrow> p_ip (apply_opt st o1) = p_ip st"
  "reset_config (p_conf (apply_opt st o1)) = reset_config (p_conf st)"
  by (cases o1; simp)+

lemma foldl_keeps:
  "\<forall>o1 \<in> set opts. \<not> is_port o1 \<Longrightarrow>
     port_number (p_conf (foldl apply_opt st opts)) = port_number (p_conf st)"
  "\<forall>o1 \<in> set opts. \<not> is_mode o1 \<Longrightarrow>
     mode_concurrency (p_conf (foldl apply_opt st opts)) = mode_concurrency (p_conf st)"
  "\<forall>o1 \<in> set opts. \<not> is_root o1 \<Longrightarrow>
     root_dir (p_conf (foldl apply_opt st opts)) = root_dir (p_conf st)"
  "\<forall>o1 \<in> set opts. \<not> is_ip o1 \<Longrightarrow> p_ip (foldl apply_opt st opts) = p_ip st"
  "reset_config (p_conf (foldl apply_opt st opts)) = reset_config (p_conf st)"
  by (induction opts arbitrary: st) (simp_all add: apply_opt_keeps)

text \<open>The only element of its kind splits the list into parts without that kind.\<close>

lemma once_split:
  assumes "once P xs" and "x \<in> set xs" and "P x"
  obtains ys zs where "xs = ys @ x # zs" and "\<forall>y \<in> set ys. \<not> P y" and "\<forall>z \<in> set zs. \<not> P z"
proof -
  from assms(2) obtain ys zs where xs: "xs = ys @ x # zs" by (auto dest: split_list)
  with assms(1,3) have "filter P ys = [] \<and> filter P zs = []"
    by (auto simp: once_def)
  with xs that show thesis by (auto simp: filter_empty_conv)
qed

lemma foldl_after:
  "\<forall>z \<in> set zs. \<not> is_port z \<Longrightarrow>
     port_number (p_conf (foldl apply_opt st (ys @ Opt_Port p # zs))) = word_of_int p"
  "\<forall>z \<in> set zs. \<not> is_mode z \<Longrightarrow>
     mode_concurrency (p_conf (foldl apply_opt st (ys @ Opt_Mode m # zs))) = m"
  "\<forall>z \<in> set zs. \<not> is_root z \<Longrightarrow>
     root_dir (p_conf (foldl apply_opt st (ys @ Opt_Root d # zs))) = take BUFFER_SIZE d"
  "\<forall>z \<in> set zs. \<not> is_ip z \<Longrightarrow> p_ip (foldl apply_opt st (ys @ Opt_Ip h # zs)) = h"
  by (simp_all add: foldl_keeps)

lemma foldl_values:
  "once is_port opts \<Longrightarrow> Opt_Port p \<in> set opts \<Longrightarrow>
     port_number (p_conf (foldl apply_opt st opts)) = word_of_int p"
  "once is_mode opts \<Longrightarrow> Opt_Mode m \<in> set opts \<Longrightarrow>
     mode_concurrency (p_conf (foldl apply_opt st opts)) = m"
  "once is_root opts \<Longrightarrow> Opt_Root d \<in> set opts \<Longrightarrow>
     root_dir (p_conf (foldl apply_opt st opts)) = take BUFFER_SIZE d"
  "once is_ip opts \<Longrightarrow> Opt_Ip h \<in> set opts \<Longrightarrow> p_ip (foldl apply_opt st opts) = h"
  by (erule (1) once_split, simp only: is_port.simps is_mode.simps is_root.simps is_ip.simps,
      simp only: foldl_after)+

section \<open>Properties\<close>

text \<open>The port option on every decimal number: the number is saturated to a \<open>long\<close>,
  cut to 32 bits and compared with 65535 from above only. So every number from 65536 to
  2147483647 is refused, but every negative one is accepted, and so is one like 4294974376,
  as port 7080.\<close>

theorem conf_port_number_show:
  "conf_opts_port_number (show_int n) =
     (if to_int32 (clamp_long n) \<le> 65535 then Ret (to_int32 (clamp_long n)) else Exit 3) \<and>
   conf_opts_port_number (show_int (- 1)) = Ret (- 1) \<and>
   conf_opts_port_number (show_int 4294974376) = Ret 7080"
proof -
  have number: "conf_opts_port_number (show_int k) =
      (if to_int32 (clamp_long k) \<le> 65535 then Ret (to_int32 (clamp_long k)) else Exit 3)" for k
    by (simp add: conf_opts_port_number_def ut_strtoint_def strtol_show_int)
  have "to_int32 (clamp_long (- 1)) = - 1" "to_int32 (clamp_long 4294974376) = 7080"
    by (simp_all add: clamp_long_def to_int32_def)
  with number show ?thesis by simp
qed

lemma parse_render_accepts:
  assumes "\<forall>n. mem n" and "list_all wf_opt opts" and "each_once opts"
    and "{Opt_Port p, Opt_Mode m, Opt_Root d, Opt_Ip h} \<subseteq> set opts"
  shows "conf_parseConfigFile mem (Some (render opts)) c ip =
    Ret (0, c\<lparr>port_number := word_of_int p, mode_concurrency := m, root_dir := take BUFFER_SIZE d,
              hostname := Host_Ip_Buffer, used_OPTARG := 0\<rparr>, h)"
proof -
  let ?init = "\<lparr>p_conf = c, p_ip = ip, count_port = 0, count_ip = 0,
      count_root_dir = 0, count_mode = 0, wrong = 0\<rparr>"
  let ?st = "foldl apply_opt ?init opts"
  have "conf_parse_lines ?init (map render_opt opts) = Ret ?st"
    using assms(2) by (rule conf_parse_lines_render)
  moreover have "(p_conf ?st)\<lparr>hostname := Host_Ip_Buffer, used_OPTARG := 0\<rparr> =
      c\<lparr>port_number := word_of_int p, mode_concurrency := m, root_dir := take BUFFER_SIZE d,
        hostname := Host_Ip_Buffer, used_OPTARG := 0\<rparr>"
    using assms(3,4) unfolding each_once_def
    by (intro Configs.equality) (simp_all add: foldl_values foldl_keeps)
  moreover have "p_ip ?st = h"
    using assms(3,4) unfolding each_once_def by (simp add: foldl_values)
  moreover have "count_ip ?st = 1 \<and> count_mode ?st = 1 \<and> count_port ?st = 1 \<and>
      count_root_dir ?st = 1 \<and> wrong ?st = 0"
    using assms(3) by (simp add: foldl_counts each_once_def once_def)
  ultimately show ?thesis
    using assms(1,2) by (simp add: conf_parseConfigFile_def render_lines Assert_nb_def)
qed

text \<open>Claim C12. Writing a configuration and parsing it: a file with one line for each of the four
  options, in any order and with blank lines anywhere, is accepted and sets exactly the values
  that were written (the root directory cut to the size of its array).\<close>

theorem conf_parse_render:
  assumes "\<forall>n. mem n" and "list_all wf_opt opts" and "each_once opts"
    and "{Opt_Port p, Opt_Mode m, Opt_Root d, Opt_Ip h} \<subseteq> set opts"
  shows "conf_parseConfigFile mem (Some (render opts)) c ip =
    Ret (0, c\<lparr>port_number := word_of_int p, mode_concurrency := m, root_dir := take BUFFER_SIZE d,
              hostname := Host_Ip_Buffer, used_OPTARG := 0\<rparr>, h)"
  using assms by (rule parse_render_accepts)

definition sample_opts :: "conf_opt list" where
  "sample_opts = [Opt_Port 7080, Opt_Root ''.'', Opt_Blank 2, Opt_Mode M_THREAD, Opt_Ip ''g.org'']"

definition empty_conf :: Configs where
  "empty_conf = \<lparr>port_number = 0, mode_concurrency = 0, root_dir = [], used_OPTARG = 0,
     reset_config = False, hostname = Host_Unset\<rparr>"

theorem conf_parse_render_witness:
  "conf_parseConfigFile (\<lambda>_. True) (Some (render sample_opts)) empty_conf [] =
     Ret (0, empty_conf\<lparr>port_number := 7080, mode_concurrency := M_THREAD, root_dir := ''.'',
                hostname := Host_Ip_Buffer, used_OPTARG := 0\<rparr>, ''g.org'')"
proof -
  have "conf_parseConfigFile (\<lambda>_. True) (Some (render sample_opts)) empty_conf [] =
     Ret (0, empty_conf\<lparr>port_number := word_of_int 7080, mode_concurrency := M_THREAD,
       root_dir := take BUFFER_SIZE ''.'', hostname := Host_Ip_Buffer, used_OPTARG := 0\<rparr>, ''g.org'')"
    by (rule conf_parse_render)
      (simp_all add: sample_opts_def plain_def each_once_def once_def BUFFER_SIZE_def)
  then show ?thesis by (simp add: BUFFER_SIZE_def)
qed

lemma parse_render_rejects:
  assumes "\<forall>n. mem n" and "list_all wf_opt opts" and "\<not> each_once opts"
  shows "conf_parseConfigFile mem (Some (render opts)) c ip = Exit 1"
  using assms
  by (auto simp: conf_parseConfigFile_def render_lines conf_parse_lines_render foldl_counts
      each_once_def once_def Assert_nb_def)

text \<open>Claim C37. A file of well-formed options in which some option is missing or given twice ends
  the process with status 1: no incomplete or ambiguous configuration is ever used.\<close>

theorem conf_parse_rejects:
  assumes "\<forall>n. mem n" and "list_all wf_opt opts" and "\<not> each_once opts"
  shows "conf_parseConfigFile mem (Some (render opts)) c ip = Exit 1"
  using assms by (rule parse_render_rejects)

theorem conf_parse_rejects_witness:
  "conf_parseConfigFile (\<lambda>_. True) (Some (render [Opt_Port 70, Opt_Port 80])) empty_conf [] = Exit 1"
  by (rule conf_parse_rejects) (simp_all add: each_once_def once_def)

subsection \<open>What every accepted file guarantees\<close>

definition port_ok :: "32 word \<Rightarrow> bool" where
  "port_ok p \<longleftrightarrow> sint p \<le> 65535"

definition mode_ok :: "int \<Rightarrow> bool" where
  "mode_ok m \<longleftrightarrow> m = M_THREAD \<or> m = M_PROCESS"

definition root_ok :: "string \<Rightarrow> bool" where
  "root_ok d \<longleftrightarrow> d \<noteq> [] \<and> length d \<le> BUFFER_SIZE \<and> CHR 0x22 \<notin> set d"

definition ip_ok :: "string \<Rightarrow> bool" where
  "ip_ok h \<longleftrightarrow> h \<noteq> [] \<and> length h < BUFFER_SIZE"

definition parse_inv :: "parse_state \<Rightarrow> bool" where
  "parse_inv st \<longleftrightarrow>
     (0 < count_port st \<longrightarrow> port_ok (port_number (p_conf st))) \<and>
     (0 < count_mode st \<longrightarrow> mode_ok (mode_concurrency (p_conf st))) \<and>
     (0 < count_root_dir st \<longrightarrow> root_ok (root_dir (p_conf st))) \<and>
     (wrong st = 0 \<and> 0 < count_ip st \<longrightarrow> ip_ok (p_ip st)) \<and>
     (wrong st = 0 \<or> wrong st = 1)"

lemma conf_opts_port_number_Ret:
  assumes "conf_opts_port_number s = Ret p"
  shows "port_ok (word_of_int p)" and "sint (word_of_int p :: 32 word) = p" and "p \<le> 65535"
proof -
  from assms have p: "ut_strtoint s = Ret p" and le: "p \<le> 65535"
    by (auto simp: conf_opts_port_number_def bind_res_eq_Ret_iff split: if_splits)
  from ut_strtoint_range [OF p] have "to_int32 p = p" by (simp add: to_int32_id)
  then show "sint (word_of_int p :: 32 word) = p" by (simp add: to_int32_def)
  with le show "port_ok (word_of_int p)" by (simp add: port_ok_def)
  from le show "p \<le> 65535" .
qed

lemma conf_opts_port_cases: "(\<exists>p. conf_opts_port_number s = Ret p) \<or> conf_opts_port_number s = Exit 3"
  using ut_strtoint_cases [of s] by (auto simp: conf_opts_port_number_def split: if_splits)

lemma conf_opts_mode_Ret: "conf_opts_mode_concurrency s = Ret m \<Longrightarrow> mode_ok m"
  by (auto simp: conf_opts_mode_cases mode_ok_def split: if_splits)

lemma token_ok:
  assumes "fst (ut_strtok s ds) = Some v"
  shows "v \<noteq> []" and "set v \<inter> set ds = {}"
  using strtok_r_token [of s ds v "snd (strtok_r s ds)"] assms
  by (simp_all add: ut_strtok_def prod_eq_iff)

lemma root_token_ok:
  "fst (ut_strtok s [CHR 0x22]) = Some v \<Longrightarrow> root_ok (strncpy v BUFFER_SIZE)"
  using token_ok [of s "[CHR 0x22]" v]
  by (auto simp: root_ok_def strncpy_def BUFFER_SIZE_def dest: in_set_takeD)

lemma ip_token_ok:
  "fst (ut_strtok s [CHR 0x22]) = Some v \<Longrightarrow> \<not> length v > BUFFER_SIZE - 1 \<Longrightarrow>
     ip_ok (strncpy v (BUFFER_SIZE - 1))"
  using token_ok [of s "[CHR 0x22]" v] by (auto simp: ip_ok_def strncpy_def BUFFER_SIZE_def)

text \<open>The line of each keyword, with the NULL checks resolved.\<close>

lemma conf_line_blank: "ut_strtok ln '' '' = (None, sv) \<Longrightarrow> conf_parse_line st ln = Ret st"
  by (simp add: conf_parse_line_def)

lemma conf_line_port:
  "ut_strtok ln '' '' = (Some ''port'', sv) \<Longrightarrow>
     conf_parse_line st ln =
       (case fst (ut_strtok sv '' '') of
          None \<Rightarrow> UB Null_Deref
        | Some v \<Rightarrow> bind_res (conf_opts_port_number v) (\<lambda>p. Ret (st\<lparr>count_port := count_port st + 1,
             p_conf := (p_conf st)\<lparr>port_number := word_of_int p\<rparr>\<rparr>)))"
  by (simp add: conf_parse_line_def Let_def Assert_nb_def split: option.split)

lemma conf_line_mode:
  "ut_strtok ln '' '' = (Some ''mode_concurrency'', sv) \<Longrightarrow>
     conf_parse_line st ln =
       (case fst (ut_strtok sv '' '') of
          None \<Rightarrow> UB Null_Deref
        | Some v \<Rightarrow> bind_res (conf_opts_mode_concurrency v) (\<lambda>m.
             Ret (st\<lparr>count_mode := count_mode st + 1,
                     p_conf := (p_conf st)\<lparr>mode_concurrency := m\<rparr>\<rparr>)))"
  by (simp add: conf_parse_line_def Let_def Assert_nb_def split: option.split)

lemma conf_line_root:
  "ut_strtok ln '' '' = (Some ''root_dir'', sv) \<Longrightarrow>
     conf_parse_line st ln =
       (case fst (ut_strtok sv [CHR 0x22]) of
          None \<Rightarrow> UB Null_Deref
        | Some v \<Rightarrow> Ret (st\<lparr>count_root_dir := count_root_dir st + 1,
                     p_conf := (p_conf st)\<lparr>root_dir := strncpy v BUFFER_SIZE\<rparr>\<rparr>))"
  by (simp add: conf_parse_line_def Let_def Assert_nb_def split: option.split)

lemma conf_line_ip:
  "ut_strtok ln '' '' = (Some ''external_ip'', sv) \<Longrightarrow>
     conf_parse_line st ln =
       (case fst (ut_strtok sv [CHR 0x22]) of
          None \<Rightarrow> UB Null_Deref
        | Some v \<Rightarrow> if length v > BUFFER_SIZE - 1
            then Ret (st\<lparr>count_ip := count_ip st + 1, wrong := or (wrong st) 1\<rparr>)
            else Ret (st\<lparr>count_ip := count_ip st + 1, p_ip := strncpy v (BUFFER_SIZE - 1)\<rparr>))"
  by (simp add: conf_parse_line_def Let_def Assert_nb_def split: option.split)

lemma conf_line_unknown:
  "ut_strtok ln '' '' = (Some w, sv) \<Longrightarrow>
     w \<notin> {''port'', ''mode_concurrency'', ''root_dir'', ''external_ip''} \<Longrightarrow>
     conf_parse_line st ln = Exit 3"
  by (auto simp: conf_parse_line_def)

lemmas conf_lines = conf_line_blank conf_line_port conf_line_mode conf_line_root conf_line_ip

lemma conf_line_kinds:
  obtains (blank) sv where "ut_strtok ln '' '' = (None, sv)"
    | (port) sv where "ut_strtok ln '' '' = (Some ''port'', sv)"
    | (mode) sv where "ut_strtok ln '' '' = (Some ''mode_concurrency'', sv)"
    | (root) sv where "ut_strtok ln '' '' = (Some ''root_dir'', sv)"
    | (ip) sv where "ut_strtok ln '' '' = (Some ''external_ip'', sv)"
    | (unknown) w sv where "ut_strtok ln '' '' = (Some w, sv)"
        "w \<notin> {''port'', ''mode_concurrency'', ''root_dir'', ''external_ip''}"
  by (cases "ut_strtok ln '' ''"; cases "fst (ut_strtok ln '' '')") auto

lemma or_flag: "w = 0 \<or> w = 1 \<Longrightarrow> or w 1 = (1 :: int)"
  by auto

lemma conf_parse_line_inv:
  assumes inv: "parse_inv st" and ret: "conf_parse_line st ln = Ret st'"
  shows "parse_inv st'"
proof (cases ln rule: conf_line_kinds)
  case (blank sv)
  with inv ret show ?thesis by (simp add: conf_line_blank)
next
  case (port sv)
  with ret obtain v p where "conf_opts_port_number v = Ret p"
    and "st' = st\<lparr>count_port := count_port st + 1,
                p_conf := (p_conf st)\<lparr>port_number := word_of_int p\<rparr>\<rparr>"
    by (auto simp: conf_line_port bind_res_eq_Ret_iff split: option.splits)
  with inv show ?thesis by (simp add: parse_inv_def conf_opts_port_number_Ret)
next
  case (mode sv)
  with ret obtain v m where "conf_opts_mode_concurrency v = Ret m"
    and "st' = st\<lparr>count_mode := count_mode st + 1, p_conf := (p_conf st)\<lparr>mode_concurrency := m\<rparr>\<rparr>"
    by (auto simp: conf_line_mode bind_res_eq_Ret_iff split: option.splits)
  with inv show ?thesis by (simp add: parse_inv_def conf_opts_mode_Ret)
next
  case (root sv)
  with ret obtain v where "fst (ut_strtok sv [CHR 0x22]) = Some v"
    and "st' = st\<lparr>count_root_dir := count_root_dir st + 1,
                p_conf := (p_conf st)\<lparr>root_dir := strncpy v BUFFER_SIZE\<rparr>\<rparr>"
    by (auto simp: conf_line_root split: option.splits)
  with inv root_token_ok show ?thesis by (simp add: parse_inv_def)
next
  case (ip sv)
  with ret obtain v where v: "fst (ut_strtok sv [CHR 0x22]) = Some v"
    by (auto simp: conf_line_ip split: option.splits)
  show ?thesis
  proof (cases "length v > BUFFER_SIZE - 1")
    case True
    with ip v ret have "st' = st\<lparr>count_ip := count_ip st + 1, wrong := or (wrong st) 1\<rparr>"
      by (simp add: conf_line_ip)
    with inv show ?thesis by (simp add: parse_inv_def or_flag)
  next
    case False
    with ip v ret have "st' = st\<lparr>count_ip := count_ip st + 1, p_ip := strncpy v (BUFFER_SIZE - 1)\<rparr>"
      by (simp add: conf_line_ip)
    with inv ip_token_ok [OF v False] show ?thesis by (simp add: parse_inv_def)
  qed
next
  case (unknown w sv)
  then have "conf_parse_line st ln = Exit 3" by (rule conf_line_unknown)
  with ret show ?thesis by simp
qed

lemma conf_parse_lines_inv:
  "parse_inv st \<Longrightarrow> conf_parse_lines st lns = Ret st' \<Longrightarrow> parse_inv st'"
  by (induction lns arbitrary: st) (auto simp: bind_res_eq_Ret_iff dest: conf_parse_line_inv)

text \<open>Claim C13. Whatever the file contains, a configuration that is accepted has a port of at most
  65535, a concurrency mode that is one of the two, a root directory that is not empty and fits
  its array, and a host name that is not empty and is terminated inside \<open>ip_buffer\<close>; \<open>hostname\<close>
  points to it and \<open>used_OPTARG\<close> is cleared.\<close>

theorem conf_parse_sound:
  assumes "conf_parseConfigFile mem content c ip = Ret (0, c', ip')"
  shows "port_ok (port_number c') \<and> mode_ok (mode_concurrency c') \<and> root_ok (root_dir c') \<and>
    ip_ok ip' \<and> hostname c' = Host_Ip_Buffer \<and> used_OPTARG c' = 0"
proof -
  let ?init = "\<lparr>p_conf = c, p_ip = ip, count_port = 0, count_ip = 0,
      count_root_dir = 0, count_mode = 0, wrong = 0\<rparr>"
  from assms obtain lns st where st: "conf_parse_lines ?init lns = Ret st"
    and counts: "count_ip st = 1" "count_mode st = 1" "count_port st = 1" "count_root_dir st = 1"
      "wrong st = 0"
    and c': "c' = (p_conf st)\<lparr>hostname := Host_Ip_Buffer, used_OPTARG := 0\<rparr>" and "ip' = p_ip st"
    by (auto simp: conf_parseConfigFile_def bind_res_eq_Ret_iff Assert_nb_def
        split: option.splits if_splits)
  have "parse_inv ?init" by (simp add: parse_inv_def)
  then have "parse_inv st" using st by (rule conf_parse_lines_inv)
  with counts c' \<open>ip' = p_ip st\<close> show ?thesis by (simp add: parse_inv_def)
qed

theorem conf_parse_sound_witness:
  "port_ok (port_number (empty_conf\<lparr>port_number := 7080\<rparr>)) \<and> root_ok ''.'' \<and> ip_ok ''g.org''"
proof -
  have "conf_parseConfigFile (\<lambda>_. True) (Some (render sample_opts)) empty_conf [] =
     Ret (0, empty_conf\<lparr>port_number := word_of_int 7080, mode_concurrency := M_THREAD,
       root_dir := take BUFFER_SIZE ''.'', hostname := Host_Ip_Buffer, used_OPTARG := 0\<rparr>, ''g.org'')"
    by (rule parse_render_accepts)
      (simp_all add: sample_opts_def plain_def each_once_def once_def BUFFER_SIZE_def)
  from conf_parse_sound [OF this] show ?thesis by (simp add: BUFFER_SIZE_def)
qed

subsection \<open>Lines without a value\<close>

text \<open>Claim C40. A keyword line without a value is reported and then used all the same: the NULL
  token is passed to the conversion, so the line is undefined behaviour (a crash) and never an
  error exit. This is the only way a line can crash.\<close>

theorem conf_line_crash_iff:
  "conf_parse_line st ln = UB e \<longleftrightarrow>
     e = Null_Deref \<and>
     (\<exists>key sv. ut_strtok ln '' '' = (Some key, sv) \<and>
        (key \<in> {''port'', ''mode_concurrency''} \<and> fst (ut_strtok sv '' '') = None \<or>
         key \<in> {''root_dir'', ''external_ip''} \<and> fst (ut_strtok sv [CHR 0x22]) = None))"
proof (cases ln rule: conf_line_kinds)
  case (port sv)
  have "bind_res (conf_opts_port_number v) (\<lambda>p. Ret (f p)) \<noteq> UB e"
    for v and f :: "int \<Rightarrow> parse_state"
    using conf_opts_port_cases [of v] by auto
  with port show ?thesis by (auto simp: conf_line_port split: option.splits)
next
  case (mode sv)
  then show ?thesis by (auto simp: conf_line_mode conf_opts_mode_cases split: option.splits)
next
  case (unknown w sv)
  then show ?thesis using conf_line_unknown [OF unknown] by auto
qed (auto simp: conf_lines split: option.splits)

subsection \<open>The command line\<close>

text \<open>A root directory of \<open>BUFFER_SIZE\<close> characters or more on the command line fills its
  array without a terminating NUL: the option is accepted, and every later use of the array as
  a string is undefined behaviour.\<close>

theorem conf_read_opt_long_root:
  assumes "BUFFER_SIZE \<le> length d" and "o_ip st \<noteq> []"
  shows "\<exists>st'. conf_read_opt daemon [''-d'', d] st = Ret (0, st') \<and>
    array_str BUFFER_SIZE (root_dir (o_conf st')) = UB Unterminated"
  using assms
  by (simp add: conf_read_opt_def conf_opt_case_def array_str_def strncpy_def Let_def)

theorem conf_read_opt_long_root_witness:
  "\<exists>st'. conf_read_opt (Ret 0) [''-d'', replicate BUFFER_SIZE (CHR ''a'')]
       \<lparr>o_conf = empty_conf, o_ip = ''h'', o_dos = 0, o_daemon = False\<rparr> = Ret (0, st') \<and>
    array_str BUFFER_SIZE (root_dir (o_conf st')) = UB Unterminated"
  by (rule conf_read_opt_long_root) simp_all

definition opt_inv :: "opt_state \<Rightarrow> bool" where
  "opt_inv st \<longleftrightarrow> port_ok (port_number (o_conf st)) \<and> mode_ok (mode_concurrency (o_conf st)) \<and>
     length (root_dir (o_conf st)) \<le> BUFFER_SIZE \<and> length (o_ip st) < BUFFER_SIZE"

lemma conf_opt_case_inv:
  assumes "opt_inv st" and "conf_opt_case st (c, a) = Ret r"
  shows "case r of Inl st' \<Rightarrow> opt_inv st' | Inr st' \<Rightarrow> opt_inv st'"
  using assms
  by (auto simp: conf_opt_case_def bind_res_eq_Ret_iff opt_inv_def strncpy_def strcpy_def
      conf_opts_port_number_Ret dest: conf_opts_mode_Ret split: if_splits)

lemma conf_opt_loop_inv:
  "opt_inv st \<Longrightarrow> conf_opt_loop st os = Ret r \<Longrightarrow>
     (case r of Inl st' \<Rightarrow> opt_inv st' | Inr st' \<Rightarrow> opt_inv st')"
proof (induction os arbitrary: st)
  case (Cons o1 os)
  obtain c a where o1: "o1 = (c, a)" by (cases o1)
  from Cons.prems obtain r1 where r1: "conf_opt_case st (c, a) = Ret r1"
    and rest: "(case r1 of Inl st' \<Rightarrow> Ret (Inl st') | Inr st' \<Rightarrow> conf_opt_loop st' os) = Ret r"
    by (auto simp: o1 bind_res_eq_Ret_iff)
  from conf_opt_case_inv [OF Cons.prems(1) r1] rest Cons.IH show ?case
    by (cases r1) auto
qed auto

text \<open>The options keep what the configuration file guaranteed of the port and the mode,
  and when the program goes on the host name is not empty; an unknown option or a missing
  argument returns 1.\<close>

theorem conf_read_opt_sound:
  assumes "opt_inv st" and "conf_read_opt daemon argv st = Ret (r, st')"
  shows "opt_inv st' \<and> (r = 0 \<and> o_ip st' \<noteq> [] \<and> hostname (o_conf st') = Host_Ip_Buffer \<or> r = 1)"
proof -
  have inv: "opt_inv (st\<lparr>o_daemon := False\<rparr>)" using assms(1) by (simp add: opt_inv_def)
  from assms(2) obtain q where
    q: "conf_opt_loop (st\<lparr>o_daemon := False\<rparr>) (getopt ''se'' ''mdpi'' argv) = Ret q"
    and rest: "(case q of
       Inl st' \<Rightarrow> Ret (1, st')
     | Inr st' \<Rightarrow>
         if o_ip st' = [] then Exit (- 1)
         else (let st'' = st'\<lparr>o_conf := (o_conf st')\<lparr>hostname := Host_Ip_Buffer\<rparr>\<rparr>
               in if o_daemon st'' then bind_res daemon (\<lambda>_. Ret (0, st'')) else Ret (0, st''))) =
       Ret (r, st')"
    by (auto simp: conf_read_opt_def bind_res_eq_Ret_iff)
  from conf_opt_loop_inv [OF inv q] rest show ?thesis
    by (auto simp: opt_inv_def Let_def bind_res_eq_Ret_iff split: sum.splits if_splits)
qed

theorem conf_read_opt_sound_witness:
  "\<exists>st'. conf_read_opt (Ret 0) [''-m'', ''Thread'', ''-s'']
       \<lparr>o_conf = empty_conf, o_ip = ''h'', o_dos = 0, o_daemon = False\<rparr> = Ret (0, st') \<and> opt_inv st'"
proof -
  let ?st = "\<lparr>o_conf = empty_conf, o_ip = ''h'', o_dos = 0, o_daemon = False\<rparr>"
  have ret: "conf_read_opt (Ret 0) [''-m'', ''Thread'', ''-s''] ?st =
      Ret (0, \<lparr>o_conf = empty_conf\<lparr>mode_concurrency := M_THREAD, hostname := Host_Ip_Buffer\<rparr>,
              o_ip = ''h'', o_dos = 1, o_daemon = False\<rparr>)"
    by (simp add: conf_read_opt_def conf_opt_case_def conf_opts_mode_cases)
  have "opt_inv ?st" by (simp add: opt_inv_def port_ok_def mode_ok_def modes empty_conf_def BUFFER_SIZE_def)
  from conf_read_opt_sound [OF this ret] ret show ?thesis by blast
qed

end
