(* ===== verification/GopherCode.thy ===== *)
theory GopherCode
  imports Utils
begin

text \<open>
  The gopher item type of a file: \<open>linux/lib/protocol/linux_protocol.c\<close>, which asks the
  \<open>file\<close> command for the MIME type and looks its parts up in two sorted tables, and
  \<open>windows/lib/protocol/windows_protocol.c\<close>, which looks the extension up.

  A \<open>char\<close> result is its value as a signed character, so -1, -2 and -3 are the error codes.
  \<open>code_of_mime\<close> and \<open>code_of_ext\<close> say in one line each what the lookups compute.
\<close>

section \<open>Definitions\<close>

abbreviation chr :: "char \<Rightarrow> int" where
  "chr c \<equiv> of_char c"

definition subtype_dict :: "dict_entry list" where
  "subtype_dict =
     [(''directory'', chr (CHR ''1'')),
      (''gif'', chr (CHR ''g'')),
      (''octet-stream'', chr (CHR ''9'')),
      (''x-mach-binary'', chr (CHR ''9'')),
      (''x-pie-executable'', chr (CHR ''9''))]"

text \<open>A NULL argument is dereferenced by \<open>strcmp\<close> in the first comparison.\<close>

definition check_subtype :: "string option \<Rightarrow> int res" where
  "check_subtype arg =
     (case arg of
        None \<Rightarrow> UB Null_Deref
      | Some a \<Rightarrow>
          (case bsearch (compare (a, 0)) subtype_dict 0 (length subtype_dict) of
             None \<Rightarrow> Ret (- 1)
           | Some result \<Rightarrow> Ret (snd result)))"

definition type_dict :: "dict_entry list" where
  "type_dict = [(''image'', chr (CHR ''I''))]"

definition check_type :: "string option \<Rightarrow> int res" where
  "check_type arg =
     (case arg of
        None \<Rightarrow> UB Null_Deref
      | Some a \<Rightarrow>
          (case bsearch (compare (a, 0)) type_dict 0 (length type_dict) of
             None \<Rightarrow> Ret (- 1)
           | Some result \<Rightarrow> Ret (snd result)))"

text \<open>
  \<open>getGopherCode\<close>. The output of the command is a parameter (\<open>os_popen\<close>); the blocks are the
  command string and the line that \<open>getline\<close> allocates.
\<close>

definition not_found_respond :: string where
  "not_found_respond = ''cannot open '' @ [CHR 0x60] @ ''non-existing-file'' @ [CHR 0x27]"

definition file_command :: string where
  "file_command = ''file -b --mime-type ''"

definition getGopherCode :: "os \<Rightarrow> string \<Rightarrow> (world, int) prog" where
  "getGopherCode env path =
     bindM (concat Blk_Command file_command path) (\<lambda>command.
     case command of
       None \<Rightarrow> retM (- 1)
     | Some cmd \<Rightarrow>
         (case os_popen env cmd of
            Popen_Fail \<Rightarrow> retM (- 1)
          | Popen_Eof \<Rightarrow>
              thenM (lib_alloc Blk_Mime)
              (thenM (freeM Blk_Command)
              (retM (- 2)))
          | Popen_Line mime_type \<Rightarrow>
              thenM (lib_alloc Blk_Mime)
              (if strncmp_eq not_found_respond mime_type (length not_found_respond) then retM (- 3)
               else
                 (let (type, strtok_ptr) = strtok_r mime_type ''/'';
                      subtype = fst (strtok_r strtok_ptr [NL])
                  in bindM (stopM (check_subtype subtype)) (\<lambda>gopher_code.
                     bindM (if gopher_code = - 1
                            then bindM (stopM (check_type type)) (\<lambda>gopher_code.
                                 retM (if gopher_code = - 1 then chr (CHR ''0'') else gopher_code))
                            else retM gopher_code) (\<lambda>gopher_code.
                     thenM (freeM Blk_Mime)
                     (thenM (freeM Blk_Command)
                     (retM gopher_code))))))))"

text \<open>The Windows version.\<close>

definition code_dict :: "dict_entry list" where
  "code_dict =
     [(''.bin'', chr (CHR ''9'')),
      (''.gif'', chr (CHR ''g'')),
      (''.jpg'', chr (CHR ''I'')),
      (''.png'', chr (CHR ''I''))]"

definition check_code :: "string \<Rightarrow> int" where
  "check_code arg =
     (case bsearch (compare (arg, 0)) code_dict 0 (length code_dict) of
        None \<Rightarrow> chr (CHR ''0'')
      | Some result \<Rightarrow> snd result)"

definition win_getGopherCode :: "string \<Rightarrow> int" where
  "win_getGopherCode p =
     (case strrchr p (CHR ''.'') of
        None \<Rightarrow> chr (CHR ''1'')
      | Some ext \<Rightarrow> check_code ext)"

section \<open>The tables\<close>

text \<open>The three tables are sorted by \<open>compare\<close>, so the library's search finds what a search
  from the front finds.\<close>

lemma compare_key: "compare (k, n) = (\<lambda>e. strcmp k (fst e))"
  by (rule ext) (simp add: compare_def)

interpretation subtypes: search_table strcmp subtype_dict
  by unfold_locales (simp add: subtype_dict_def)

interpretation types: search_table strcmp type_dict
  by unfold_locales (simp add: type_dict_def)

interpretation codes: search_table strcmp code_dict
  by unfold_locales (simp add: code_dict_def)

text \<open>What the lookups compute.\<close>

definition code_of_mime :: "string \<Rightarrow> string \<Rightarrow> int" where
  "code_of_mime type subtype =
     (if subtype = ''directory'' then chr (CHR ''1'')
      else if subtype = ''gif'' then chr (CHR ''g'')
      else if subtype \<in> {''octet-stream'', ''x-mach-binary'', ''x-pie-executable''}
        then chr (CHR ''9'')
      else if type = ''image'' then chr (CHR ''I'')
      else chr (CHR ''0''))"

lemma dict_lookups:
  "check_subtype (Some a) = Ret (case map_of subtype_dict a of None \<Rightarrow> - 1 | Some n \<Rightarrow> n)"
  "check_type (Some a) = Ret (case map_of type_dict a of None \<Rightarrow> - 1 | Some n \<Rightarrow> n)"
  "check_code a = (case map_of code_dict a of None \<Rightarrow> chr (CHR ''0'') | Some n \<Rightarrow> n)"
  by (simp_all add: check_subtype_def check_type_def check_code_def compare_key
      subtypes.bsearch_map_of types.bsearch_map_of codes.bsearch_map_of case_map_option
      split: option.split)

lemma check_subtype_range: "check_subtype (Some a) = Ret n \<Longrightarrow> - 1 \<le> n"
  by (auto simp: dict_lookups subtype_dict_def split: if_splits)

lemma strtok_mime:
  assumes "t \<noteq> []" and "CHR ''/'' \<notin> set t" and "s \<noteq> []" and "NL \<notin> set s"
  shows "strtok_r (t @ CHR ''/'' # s @ [NL]) ''/'' = (Some t, s @ [NL])"
    and "fst (strtok_r (s @ [NL]) [NL]) = Some s"
  using assms strtok_r_word(1) [of t "''/''" "CHR ''/''"] strtok_r_word(1) [of s "[NL]" NL "[]"]
  by auto

section \<open>What the Linux lookup returns\<close>

text \<open>The value as a function of the command's output, and the blocks that are left behind: all
  early returns forget one or both of the two blocks.\<close>

definition item_code :: "os \<Rightarrow> string \<Rightarrow> int res" where
  "item_code env path =
     (case os_popen env (file_command @ path) of
        Popen_Fail \<Rightarrow> Ret (- 1)
      | Popen_Eof \<Rightarrow> Ret (- 2)
      | Popen_Line l \<Rightarrow>
          if strncmp_eq not_found_respond l (length not_found_respond) then Ret (- 3)
          else (let (type, rest) = strtok_r l ''/''
                in case fst (strtok_r rest [NL]) of
                     None \<Rightarrow> UB Null_Deref
                   | Some s \<Rightarrow>
                       (case map_of subtype_dict s of
                          Some n \<Rightarrow> Ret n
                        | None \<Rightarrow>
                            (case map_of type_dict (the type) of
                               Some n \<Rightarrow> Ret n
                             | None \<Rightarrow> Ret (chr (CHR ''0''))))))"

definition code_leak :: "os \<Rightarrow> string \<Rightarrow> blk list" where
  "code_leak env path =
     (case os_popen env (file_command @ path) of
        Popen_Fail \<Rightarrow> [Blk_Command]
      | Popen_Eof \<Rightarrow> [Blk_Mime]
      | Popen_Line l \<Rightarrow>
          if strncmp_eq not_found_respond l (length not_found_respond) \<or> is_ub (item_code env path)
          then [Blk_Mime, Blk_Command] else [])"

lemma subtype_codes: "map_of subtype_dict s = Some n \<Longrightarrow> n \<noteq> - 1"
  "map_of type_dict s = Some n \<Longrightarrow> n \<noteq> - 1"
  by (auto simp: subtype_dict_def type_dict_def split: if_splits)

lemma strtok_first_None: "strtok_r l ds = (None, r) \<Longrightarrow> r = []"
  by (auto simp: strtok_r_def Let_def split: if_splits)

lemma getGopherCode_run:
  assumes "oom w = []"
  shows "getGopherCode env path w = (item_code env path, w\<lparr>live := code_leak env path @ live w\<rparr>)"
proof (cases "os_popen env (file_command @ path)")
  case (Popen_Line l)
  obtain type rest where tok: "strtok_r l ''/'' = (type, rest)" by fastforce
  note defs = getGopherCode_def item_code_def code_leak_def Popen_Line tok
  have "wp (getGopherCode env path)
    (\<lambda>r w'. r = item_code env path \<and> w' = w\<lparr>live := code_leak env path @ live w\<rparr>) w"
  proof (cases "fst (strtok_r rest [NL])")
    case None
    then show ?thesis using assms by (simp add: defs wp_rules check_subtype_def)
  next
    case (Some s)
    have "type \<noteq> None"
    proof
      assume "type = None"
      with tok have "rest = []" using strtok_first_None by simp
      with Some show False by (simp add: strtok_r_def)
    qed
    then obtain t where t: "type = Some t" by auto
    show ?thesis
      using assms Some t subtype_codes
      by (auto simp: defs wp_rules dict_lookups split: option.split)
  qed
  then show ?thesis by (simp add: wp_fst_snd prod_eq_iff)
next
  case Popen_Fail
  have "wp (getGopherCode env path)
    (\<lambda>r w'. r = item_code env path \<and> w' = w\<lparr>live := code_leak env path @ live w\<rparr>) w"
    using assms by (simp add: getGopherCode_def item_code_def code_leak_def Popen_Fail wp_rules)
  then show ?thesis by (simp add: wp_fst_snd prod_eq_iff)
next
  case Popen_Eof
  have "wp (getGopherCode env path)
    (\<lambda>r w'. r = item_code env path \<and> w' = w\<lparr>live := code_leak env path @ live w\<rparr>) w"
    using assms by (simp add: getGopherCode_def item_code_def code_leak_def Popen_Eof wp_rules)
  then show ?thesis by (simp add: wp_fst_snd prod_eq_iff)
qed

text \<open>Whatever the allocations do, the lookup returns a code or reads through NULL, and it touches
  nothing but blocks of its own.\<close>

lemma wp_check_subtype: "wp (stopM (check_subtype s)) Q w \<longleftrightarrow> Q (check_subtype s) w"
  by simp

lemma code_results: "check_subtype s = UB Null_Deref \<or> (\<exists>n. check_subtype s = Ret n)"
  "check_type s = UB Null_Deref \<or> (\<exists>n. check_type s = Ret n)"
  by (auto simp: check_subtype_def check_type_def split: option.split)

lemma getGopherCode_frame:
  "wp (getGopherCode env path)
     (\<lambda>r w'. frame w w' \<and> (Blk_Fullpath \<in> set (live w) \<longrightarrow> Blk_Fullpath \<in> set (live w')) \<and>
       ((\<exists>n. r = Ret n) \<or> r = UB Null_Deref)) w"
proof (cases "oom w")
  case Nil
  have "(\<exists>n. item_code env path = Ret n) \<or> item_code env path = UB Null_Deref"
    by (auto simp: item_code_def Let_def split: popen_res.split option.split prod.split)
  moreover have "set (code_leak env path) \<inter> core = {}"
    by (auto simp: code_leak_def split: popen_res.splits if_splits)
  then have "frame w (w\<lparr>live := code_leak env path @ live w\<rparr>)"
    by (auto simp: frame_def core_live_def filter_empty_conv)
  ultimately show ?thesis by (simp add: wp_def getGopherCode_run [OF Nil])
next
  case (Cons ok rest)
  show ?thesis
  proof (cases ok)
    case False
    then show ?thesis using Cons by (simp add: getGopherCode_def wp_rules)
  next
    case True
    show ?thesis
    proof (cases "os_popen env (file_command @ path)")
      case (Popen_Line l)
      obtain type rest' where tok: "strtok_r l ''/'' = (type, rest')" by fastforce
      show ?thesis
        using Cons True code_results(1) [of "fst (strtok_r rest' [NL])"] code_results(2) [of type]
        by (auto simp: getGopherCode_def Popen_Line tok wp_rules)
    qed (use Cons True in \<open>simp_all add: getGopherCode_def wp_rules\<close>)
  qed
qed

lemma code_leak_set: "set (code_leak env path) \<subseteq> {Blk_Mime, Blk_Command}"
  by (auto simp: code_leak_def split: popen_res.splits if_splits)

lemma item_code_range:
  "item_code env path = Ret n \<Longrightarrow> n < 0 \<or> n \<in> chr ` {CHR ''1'', CHR ''g'', CHR ''9'', CHR ''I'', CHR ''0''}"
  by (auto simp: item_code_def subtype_dict_def type_dict_def Let_def
      split: popen_res.splits if_splits option.splits prod.splits)

text \<open>
  What the listing of a directory needs of \<open>getGopherCode\<close>, which each platform has in its own
  version: the code as a function of the path, the blocks that are left behind, and that the
  handler's blocks are not touched.
\<close>

locale item_coder =
  fixes code :: "string \<Rightarrow> (world, int) prog"
    and item :: "string \<Rightarrow> int res"
    and leak :: "string \<Rightarrow> blk list"
  assumes code_run: "oom w = [] \<Longrightarrow> code p w = (item p, w\<lparr>live := leak p @ live w\<rparr>)"
    and code_frame: "wp (code p) (\<lambda>r w'. frame w w' \<and>
        (Blk_Fullpath \<in> set (live w) \<longrightarrow> Blk_Fullpath \<in> set (live w')) \<and>
        ((\<exists>n. r = Ret n) \<or> r = UB Null_Deref)) w"
    and leak_blks: "set (leak p) \<subseteq> {Blk_Mime, Blk_Command}"
    and item_no_error: "item p = Ret n \<Longrightarrow> n \<noteq> chr (CHR ''3'')"

interpretation linux_code: item_coder "getGopherCode env" "item_code env" "code_leak env" for env
proof unfold_locales
  show "item_code env p = Ret n \<Longrightarrow> n \<noteq> chr (CHR ''3'')" for p n
    using item_code_range [of env p n] by auto
qed (simp_all add: getGopherCode_run getGopherCode_frame code_leak_set)

lemma win_code_range: "win_getGopherCode p \<in> chr ` {CHR ''1'', CHR ''g'', CHR ''9'', CHR ''I'', CHR ''0''}"
  by (auto simp: win_getGopherCode_def dict_lookups code_dict_def split: option.split)

interpretation win_code: item_coder "\<lambda>p. retM (win_getGopherCode p)" "\<lambda>p. Ret (win_getGopherCode p)" "\<lambda>_. []"
proof unfold_locales
  show "Ret (win_getGopherCode p) = Ret n \<Longrightarrow> n \<noteq> chr (CHR ''3'')" for p n
    using win_code_range [of p] by auto
qed simp_all

section \<open>Properties\<close>

text \<open>Claim C26. The MIME type decides the item type: directories are menus, GIF images and binaries
  have their own types, other images are images and everything else is text. The command string
  and the line are freed again, so the world does not change.\<close>

theorem getGopherCode_mime:
  assumes "oom w = []"
    and "os_popen env (file_command @ path) = Popen_Line (t @ CHR ''/'' # s @ [NL])"
    and "t \<noteq> []" and "CHR ''/'' \<notin> set t" and "s \<noteq> []" and "NL \<notin> set s"
    and "\<not> strncmp_eq not_found_respond (t @ CHR ''/'' # s @ [NL]) (length not_found_respond)"
  shows "getGopherCode env path w = (Ret (code_of_mime t s), w)"
proof -
  have "wp (getGopherCode env path) (\<lambda>r w'. r = Ret (code_of_mime t s) \<and> w' = w) w"
    using assms unfolding getGopherCode_def
    by (simp add: wp_rules strtok_mime dict_lookups code_of_mime_def subtype_dict_def type_dict_def)
  then show ?thesis by (simp add: wp_fst_snd prod_eq_iff)
qed

theorem getGopherCode_mime_witness:
  "\<exists>env w. getGopherCode env ''a.gif'' w = (Ret (chr (CHR ''g'')), w)"
proof -
  define env where "env = \<lparr>os_stat = \<lambda>_. None, os_realpath = \<lambda>_. None, os_opendir = \<lambda>_. None,
    os_popen = \<lambda>_. Popen_Line (''image/gif'' @ [NL]), os_open = \<lambda>_. False,
    os_fstat = \<lambda>_. None, os_mmap = \<lambda>_. None, os_thread = True\<rparr>"
  fix w0 :: world
  have "getGopherCode env ''a.gif'' (w0\<lparr>oom := []\<rparr>) = (Ret (code_of_mime ''image'' ''gif''), w0\<lparr>oom := []\<rparr>)"
    by (rule getGopherCode_mime) (simp_all add: env_def strncmp_eq_def not_found_respond_def)
  then show ?thesis by (auto simp: code_of_mime_def)
qed

text \<open>When the line has no slash, as an error message of the \<open>file\<close> command may have
  none, there is no subtype, and the lookup reads through the NULL pointer.\<close>

theorem getGopherCode_no_slash:
  assumes "oom w = []" and "os_popen env (file_command @ path) = Popen_Line l"
    and "CHR ''/'' \<notin> set l" and "\<not> strncmp_eq not_found_respond l (length not_found_respond)"
  shows "fst (getGopherCode env path w) = UB Null_Deref"
proof -
  have "fst (strtok_r (snd (strtok_r l ''/'')) [NL]) = None"
  proof (cases "l = []")
    case True
    then show ?thesis by (simp add: strtok_r_def)
  next
    case False
    with assms(3) have "strtok_r l ''/'' = (Some l, [])"
      using strtok_r_word(2) [of l "''/''" "CHR ''/''"] by auto
    then show ?thesis by (simp add: strtok_r_def)
  qed
  moreover obtain t r where "strtok_r l ''/'' = (t, r)" by (cases "strtok_r l ''/''")
  ultimately have "wp (getGopherCode env path) (\<lambda>r w'. r = UB Null_Deref) w"
    using assms unfolding getGopherCode_def by (simp add: wp_rules check_subtype_def)
  then show ?thesis by (simp add: wp_fst_snd)
qed

theorem getGopherCode_no_slash_witness:
  "\<exists>env w. fst (getGopherCode env ''x'' w) = UB Null_Deref"
proof -
  define env where "env = \<lparr>os_stat = \<lambda>_. None, os_realpath = \<lambda>_. None, os_opendir = \<lambda>_. None,
    os_popen = \<lambda>_. Popen_Line ''ERROR'', os_open = \<lambda>_. False,
    os_fstat = \<lambda>_. None, os_mmap = \<lambda>_. None, os_thread = True\<rparr>"
  fix w0 :: world
  have "fst (getGopherCode env ''x'' (w0\<lparr>oom := []\<rparr>)) = UB Null_Deref"
    by (rule getGopherCode_no_slash [where l = "''ERROR''"])
      (simp_all add: env_def strncmp_eq_def not_found_respond_def)
  then show ?thesis by blast
qed

text \<open>The Windows lookup takes everything behind the last dot of the whole path as the
  extension. A path without a dot is a menu even when it is a file, and when the last dot is in
  a directory name or in a leading \<open>./\<close> the item is text even when it is a directory.\<close>

theorem win_getGopherCode_cases:
  assumes "CHR ''.'' \<notin> set d"
  shows "win_getGopherCode d = chr (CHR ''1'') \<and>
    win_getGopherCode (r @ CHR ''.'' # CHR ''/'' # d) = chr (CHR ''0'') \<and>
    win_getGopherCode (r @ ''.gif'') = chr (CHR ''g'') \<and>
    win_getGopherCode (r @ ''.jpg'') = chr (CHR ''I'') \<and>
    win_getGopherCode (r @ ''.bin'') = chr (CHR ''9'')"
  using assms
  by (simp add: win_getGopherCode_def strrchr_last strrchr_none dict_lookups code_dict_def)

theorem win_getGopherCode_cases_witness:
  "win_getGopherCode ''docs'' = chr (CHR ''1'') \<and>
   win_getGopherCode (''.'' @ CHR ''.'' # CHR ''/'' # ''docs'') = chr (CHR ''0'')"
  using win_getGopherCode_cases [of "''docs''" "''.''"] by simp

end
