(* ===== verification/Protocol.thy ===== *)
theory Protocol
  imports GopherCode
begin

text \<open>
  \<open>general/lib/gopher/protocol.c\<close>: from the selector of a request to a path, the lines of a
  response, and the listing of a directory.

  \<^item> A path of the code is a string. \<open>comps\<close> are its components and \<open>walk\<close> is what the
    operating system does with them; with both, the path theorems say where a request ends up.
  \<^item> \<open>menu_line\<close> and \<open>error_line\<close> are the texts that \<open>protocol_response\<close> prints;
    \<open>parse_menu_line\<close> reads a menu line the way a client does.
  \<^item> The locale \<open>line_sender\<close> is the contract of the callback that \<open>print_directory\<close> gets, and \<open>lister\<close>
    joins it to \<open>item_coder\<close>, the contract of the platform's \<open>getGopherCode\<close>.
\<close>

section \<open>Definitions\<close>

text \<open>\<open>resolve_selector\<close> returns its status and what it stored through \<open>filepath\<close>; the block is
  \<open>Blk_Path\<close>. With an empty root, the last character of the root is read in front of it.\<close>

definition resolve_selector :: "string \<Rightarrow> string \<Rightarrow> (world, int \<times> string option) prog" where
  "resolve_selector gopher_root selector =
     (let cap = length gopher_root + 1 + length selector + 4;
          rel = (if selector \<noteq> [] \<and> hd selector = OS_SEPARATOR then drop 1 selector else selector)
      in bindM (callocM Blk_Path) (\<lambda>ok.
         if \<not> ok then retM (NO_FREE, None)
         else if gopher_root = [] then stopM (UB Out_Of_Bounds)
         else (let text = (if last gopher_root = OS_SEPARATOR then gopher_root @ rel
                           else gopher_root @ OS_SEPARATOR # rel)
               in bindM (stopM (sprintf_to cap text)) (\<lambda>ret.
                  if ret < 0 then retM (NEED_TO_FREE, Some text)
                  else retM (0, Some text)))))"

text \<open>\<open>protocol_response\<close>. The result is None as long as \<open>*result\<close> is not assigned a block (\<open>b\<close>
  names the pointer). The type is a \<open>char\<close>, so \<open>%c\<close> prints its low eight bits.\<close>

definition error_text :: string where
  "error_text = '' doesn'' @ [CHR 0x27] @ ''t exist! error.host''"

definition protocol_response ::
  "blk \<Rightarrow> int \<Rightarrow> string \<Rightarrow> string \<Rightarrow> string \<Rightarrow> int \<Rightarrow> (world, int \<times> string option) prog" where
  "protocol_response b type filename path host port =
     (if type = - 1 then retM (1, None)
      else if type = chr (CHR ''3'') then
        (let cap = 1 + 0 + length filename + length error_text + 6 + 4 + 4;
             text = [CHR ''3''] @ [] @ filename @ [TAB] @ error_text @ [TAB] @ show_int port @ [NL]
         in bindM (callocM b) (\<lambda>ok.
            if \<not> ok then retM (1, None)
            else bindM (stopM (sprintf_to cap text)) (\<lambda>ret.
                 if ret < 0 then retM (NEED_TO_FREE, Some text) else retM (0, Some text))))
      else
        (let cap = 1 + length path + length filename + length host + 6 + 4 + 4;
             text = [char_of type] @ filename @ [TAB] @ path @ [TAB] @ host @ [TAB] @
                    show_int port @ [NL]
         in bindM (callocM b) (\<lambda>ok.
            if \<not> ok then retM (1, None)
            else bindM (stopM (sprintf_to cap text)) (\<lambda>ret.
                 if ret < 0 then retM (NEED_TO_FREE, Some text) else retM (0, Some text)))))"

text \<open>\<open>print_directory\<close>: one line per entry that is not hidden, sent by the callback. Its other
  calls that depend on the platform, \<open>opendir\<close> and \<open>getGopherCode\<close>, are arguments as well.\<close>

fun print_entries ::
  "(string \<Rightarrow> (world, int) prog) \<Rightarrow> string \<Rightarrow> (string \<Rightarrow> (world, int) prog) \<Rightarrow> int \<Rightarrow> string list \<Rightarrow>
    (world, int) prog" where
  "print_entries getGopherCode_f path socket_send_f port [] = retM 0"
| "print_entries getGopherCode_f path socket_send_f port (filename # entries) =
     (if filename \<noteq> [] \<and> hd filename = CHR ''.''
      then print_entries getGopherCode_f path socket_send_f port entries
      else bindM (callocM Blk_Fullpath) (\<lambda>ok.
        if \<not> ok then retM (- 1)
        else (let fullpath = path @ ''/'' @ filename
              in bindM (stopM (sprintf_to (length path + length filename + 5) fullpath)) (\<lambda>err.
        if err < 0 then thenM (freeM Blk_Fullpath) (retM (- 1))
        else bindM (getGopherCode_f fullpath) (\<lambda>code.
             bindM (getM ip_buffer) (\<lambda>host.
             bindM (protocol_response Blk_Line code filename fullpath host port) (\<lambda>(err, response_line).
             if err \<noteq> 0 then
               thenM (freeM Blk_Fullpath)
               (thenM (whenM (err = NEED_TO_FREE) (freeM Blk_Line))
               (retM (- 1)))
             else
               bindM (socket_send_f (the response_line)) (\<lambda>ret.
               thenM (freeM Blk_Fullpath)
               (thenM (freeM Blk_Line)
               (if ret < 0 then retM (- 2)
                else print_entries getGopherCode_f path socket_send_f port entries))))))))))"

definition print_directory ::
  "(string \<Rightarrow> string list option) \<Rightarrow> (string \<Rightarrow> (world, int) prog) \<Rightarrow> string \<Rightarrow>
    (string \<Rightarrow> (world, int) prog) \<Rightarrow> int \<Rightarrow> (world, int) prog" where
  "print_directory opendir getGopherCode_f path socket_send_f port =
     (case opendir path of
        None \<Rightarrow> retM (- 1)
      | Some entries \<Rightarrow> print_entries getGopherCode_f path socket_send_f port entries)"

section \<open>Paths\<close>

fun split_on :: "char \<Rightarrow> string \<Rightarrow> string list" where
  "split_on c [] = [[]]"
| "split_on c (x # xs) =
     (if x = c then [] # split_on c xs
      else (x # hd (split_on c xs)) # tl (split_on c xs))"

lemma split_on_nonempty [simp]: "split_on c s \<noteq> []"
  by (induction s) auto

lemma split_on_append: "split_on c (s @ c # t) = split_on c s @ split_on c t"
  by (induction s) auto

lemma split_on_none: "c \<notin> set s \<Longrightarrow> split_on c s = [s]"
  by (induction s) auto

text \<open>The components of a path, and the directory they lead to; \<open>walk st cs\<close> follows \<open>cs\<close> from
  the directory with the reversed components \<open>st\<close>.\<close>

definition comps :: "string \<Rightarrow> string list" where
  "comps p = filter (\<lambda>c. c \<noteq> [] \<and> c \<noteq> ''.'') (split_on OS_SEPARATOR p)"

fun walk :: "string list \<Rightarrow> string list \<Rightarrow> string list" where
  "walk st [] = st"
| "walk st (c # cs) = (if c = ''..'' then walk (drop 1 st) cs else walk (c # st) cs)"

text \<open>Where a path leads from the working directory \<open>d\<close>, an absolute path: the directories from the
  last one up to the root. Symbolic links are not followed.\<close>

definition leads :: "string \<Rightarrow> string \<Rightarrow> string list" where
  "leads d p = walk (if p \<noteq> [] \<and> hd p = OS_SEPARATOR then [] else walk [] (comps d)) (comps p)"

lemma comps_Nil [simp]: "comps [] = []"
  by (simp add: comps_def)

lemma comps_append: "comps (s @ OS_SEPARATOR # t) = comps s @ comps t"
  by (simp add: comps_def split_on_append)

lemma comps_lead: "comps (OS_SEPARATOR # t) = comps t"
  using comps_append [of "[]" t] by simp

lemma comps_trail: "comps (s @ [OS_SEPARATOR]) = comps s"
  using comps_append [of s "[]"] by simp

lemma walk_append: "walk st (a @ b) = walk (walk st a) b"
  by (induction st a rule: walk.induct) auto

lemma walk_plain: "''..'' \<notin> set cs \<Longrightarrow> walk st cs = rev cs @ st"
  by (induction cs arbitrary: st) auto

lemma walk_up: "walk st (replicate n ''..'') = drop n st"
  by (induction n arbitrary: st) (auto simp: drop_drop)

definition resolved :: "string \<Rightarrow> string \<Rightarrow> string" where
  "resolved root sel =
     (if last root = OS_SEPARATOR then root else root @ [OS_SEPARATOR]) @
     (if sel \<noteq> [] \<and> hd sel = OS_SEPARATOR then drop 1 sel else sel)"

lemma comps_resolved:
  assumes "root \<noteq> []"
  shows "comps (resolved root sel) = comps root @ comps sel"
proof -
  define rel where "rel = (if sel \<noteq> [] \<and> hd sel = OS_SEPARATOR then drop 1 sel else sel)"
  have "comps rel = comps sel"
    by (cases sel) (auto simp: rel_def comps_lead)
  moreover have "comps (resolved root sel) = comps root @ comps rel"
  proof (cases "last root = OS_SEPARATOR")
    case True
    then obtain r where r: "root = r @ [OS_SEPARATOR]" using assms by (metis append_butlast_last_id)
    then have "resolved root sel = r @ OS_SEPARATOR # rel" by (simp add: resolved_def rel_def)
    then show ?thesis by (simp add: comps_append r comps_trail)
  next
    case False
    then have "resolved root sel = root @ OS_SEPARATOR # rel" by (simp add: resolved_def rel_def)
    then show ?thesis by (simp add: comps_append)
  qed
  ultimately show ?thesis by simp
qed

lemma length_resolved: "length (resolved root sel) \<le> length root + 1 + length sel"
  by (auto simp: resolved_def)

lemma wp_resolve_selector [wp_rules]:
  "wp (resolve_selector root sel) Q w =
     wp (callocM Blk_Path) (seq_post (\<lambda>ok.
       if \<not> ok then retM (NO_FREE, None)
       else if root = [] then stopM (UB Out_Of_Bounds)
       else retM (0, Some (resolved root sel))) Q) w"
proof -
  have "sprintf_to (length root + 1 + length sel + 4) (resolved root sel)
      = Ret (int (length (resolved root sel)))"
    using length_resolved [of root sel] by (simp add: sprintf_to_def)
  moreover have txt_eq: "(if last root = OS_SEPARATOR
       then root @ (if sel \<noteq> [] \<and> hd sel = OS_SEPARATOR then drop 1 sel else sel)
       else root @ OS_SEPARATOR # (if sel \<noteq> [] \<and> hd sel = OS_SEPARATOR then drop 1 sel else sel)) =
     resolved root sel"
    by (simp add: resolved_def)
  have "resolve_selector root sel =
    bindM (callocM Blk_Path) (\<lambda>ok.
       if \<not> ok then retM (NO_FREE, None)
       else if root = [] then stopM (UB Out_Of_Bounds)
       else bindM (stopM (sprintf_to (length root + 1 + length sel + 4) (resolved root sel)))
         (\<lambda>ret. if ret < 0 then retM (NEED_TO_FREE, Some (resolved root sel))
                else retM (0, Some (resolved root sel))))"
    unfolding resolve_selector_def Let_def txt_eq by (rule refl)
  ultimately have "resolve_selector root sel =
    bindM (callocM Blk_Path) (\<lambda>ok.
       if \<not> ok then retM (NO_FREE, None)
       else if root = [] then stopM (UB Out_Of_Bounds)
       else retM (0, Some (resolved root sel)))"
    by (simp only:, intro arg_cong [where f = "bindM _"] ext) (simp add: bindM_def)
  then show ?thesis by (simp add: wp_bindM)
qed

section \<open>Lines\<close>

definition menu_line :: "int \<Rightarrow> string \<Rightarrow> string \<Rightarrow> string \<Rightarrow> int \<Rightarrow> string" where
  "menu_line type f p h port =
     [char_of type] @ f @ [TAB] @ p @ [TAB] @ h @ [TAB] @ show_int port @ [NL]"

definition error_line :: "string \<Rightarrow> int \<Rightarrow> string" where
  "error_line f port =
     [CHR ''3''] @ f @ [TAB] @ error_text @ [TAB] @ show_int port @ [NL]"

definition response_text :: "int \<Rightarrow> string \<Rightarrow> string \<Rightarrow> string \<Rightarrow> int \<Rightarrow> string" where
  "response_text type f p h port =
     (if type = chr (CHR ''3'') then error_line f port else menu_line type f p h port)"

text \<open>The block is large enough exactly when the port is printed with few characters.\<close>

definition response_fits :: "int \<Rightarrow> int \<Rightarrow> bool" where
  "response_fits type port \<longleftrightarrow>
     length (show_int port) \<le> (if type = chr (CHR ''3'') then 10 else 9)"

lemma wp_protocol_response [wp_rules]:
  "wp (protocol_response b type f p h port) Q w =
     (if type = - 1 then Q (Ret (1, None)) w
      else wp (callocM b) (seq_post (\<lambda>ok.
        if \<not> ok then retM (1, None)
        else if response_fits type port then retM (0, Some (response_text type f p h port))
        else stopM (UB Out_Of_Bounds)) Q) w)"
proof -
  have e: "sprintf_to (1 + 0 + length f + length error_text + 6 + 4 + 4) (error_line f port) =
    (if response_fits (chr (CHR ''3'')) port then Ret (int (length (error_line f port)))
     else UB Out_Of_Bounds)"
    by (auto simp: sprintf_to_def error_line_def response_fits_def)
  have m: "sprintf_to (1 + length p + length f + length h + 6 + 4 + 4) (menu_line type f p h port) =
    (if response_fits type port then Ret (int (length (menu_line type f p h port)))
     else UB Out_Of_Bounds)" if "type \<noteq> chr (CHR ''3'')"
    using that by (auto simp: sprintf_to_def menu_line_def response_fits_def)
  have et: "[CHR ''3''] @ [] @ f @ [TAB] @ error_text @ [TAB] @ show_int port @ [NL] = error_line f port"
    by (simp add: error_line_def)
  note unfold = protocol_response_def Let_def et menu_line_def [symmetric]
  have "protocol_response b type f p h port =
    (if type = - 1 then retM (1, None)
     else bindM (callocM b) (\<lambda>ok. if \<not> ok then retM (1, None)
       else if response_fits type port then retM (0, Some (response_text type f p h port))
       else stopM (UB Out_Of_Bounds)))"
  proof (cases "type = chr (CHR ''3'')")
    case True
    have "chr (CHR ''3'') \<noteq> - 1" by simp
    with True show ?thesis
      unfolding unfold e
      by (simp only: if_True if_False response_text_def simp_thms,
          intro arg_cong [where f = "bindM _"] ext) (simp add: bindM_def)
  next
    case False
    then show ?thesis
      unfolding unfold m [OF False]
      by (simp only: if_True if_False response_text_def simp_thms,
          intro if_cong refl arg_cong [where f = "bindM _"] ext) (simp add: bindM_def)
  qed
  then show ?thesis by (simp add: wp_bindM wp_if)
qed

lemma response_fits_iff:
  "response_fits type port \<longleftrightarrow>
     (if type = chr (CHR ''3'') then - (10 ^ 9) < port \<and> port < 10 ^ 10
      else - (10 ^ 8) < port \<and> port < 10 ^ 9)"
  using length_show_int_iff [of port 8] length_show_int_iff [of port 7]
  by (simp add: response_fits_def eval_nat_numeral)

lemma real_port_fits: "0 \<le> port \<Longrightarrow> port < 65536 \<Longrightarrow> response_fits type port"
  by (simp add: response_fits_iff)

text \<open>What a client makes of a menu line: a type, and four fields separated by tabs.\<close>

definition parse_menu_line :: "string \<Rightarrow> (char \<times> string \<times> string \<times> string \<times> int) option" where
  "parse_menu_line l =
     (case split_on TAB (takeWhile (\<lambda>c. c \<noteq> NL) l) of
        [c # display, selector, host, port] \<Rightarrow>
          (case ut_strtoint port of
             Ret n \<Rightarrow> Some (c, display, selector, host, n)
           | _ \<Rightarrow> None)
      | _ \<Rightarrow> None)"

definition field :: "string \<Rightarrow> bool" where
  "field s \<longleftrightarrow> TAB \<notin> set s \<and> NL \<notin> set s"

lemma field_show_int [simp]: "field (show_int n)"
  unfolding field_def using show_int_not_special [of _ n] by blast

lemma takeWhile_line: "NL \<notin> set s \<Longrightarrow> takeWhile (\<lambda>c. c \<noteq> NL) (s @ [NL]) = s"
  by (subst takeWhile_append2) auto

section \<open>The listing\<close>

definition visible :: "string \<Rightarrow> bool" where
  "visible f \<longleftrightarrow> \<not> (f \<noteq> [] \<and> hd f = CHR ''.'')"

definition entry_code :: "(string \<Rightarrow> int res) \<Rightarrow> string \<Rightarrow> string \<Rightarrow> int" where
  "entry_code item path f = (case item (path @ ''/'' @ f) of Ret n \<Rightarrow> n | _ \<Rightarrow> 0)"

definition listing :: "(string \<Rightarrow> int res) \<Rightarrow> string \<Rightarrow> string \<Rightarrow> int \<Rightarrow> string list \<Rightarrow> string" where
  "listing item path host port entries =
     List.concat (map (\<lambda>f. menu_line (entry_code item path f) f (path @ ''/'' @ f) host port)
       (filter visible entries))"

text \<open>The blocks that the look-ups of the item types leave behind, the last ones first.\<close>

definition listing_leak :: "(string \<Rightarrow> blk list) \<Rightarrow> string \<Rightarrow> string list \<Rightarrow> blk list" where
  "listing_leak leak path entries =
     List.concat (rev (map (\<lambda>f. leak (path @ ''/'' @ f)) (filter visible entries)))"

text \<open>One visible entry, without the branch for a \<open>sprintf\<close> that fails.\<close>

lemma print_entries_visible:
  assumes "visible f"
  shows "print_entries code path socket_send_f port (f # es) =
    bindM (callocM Blk_Fullpath) (\<lambda>ok. if \<not> ok then retM (- 1)
      else bindM (code (path @ ''/'' @ f)) (\<lambda>n. bindM (getM ip_buffer) (\<lambda>host.
      bindM (protocol_response Blk_Line n f (path @ ''/'' @ f) host port) (\<lambda>(err, response_line).
      if err \<noteq> 0 then thenM (freeM Blk_Fullpath)
          (thenM (whenM (err = NEED_TO_FREE) (freeM Blk_Line)) (retM (- 1)))
      else bindM (socket_send_f (the response_line)) (\<lambda>ret.
       thenM (freeM Blk_Fullpath) (thenM (freeM Blk_Line)
       (if ret < 0 then retM (- 2) else print_entries code path socket_send_f port es)))))))"
proof -
  have "sprintf_to (length path + length f + 5) (path @ ''/'' @ f)
      = Ret (int (length (path @ ''/'' @ f)))"
    by (simp add: sprintf_to_def)
  moreover have "\<not> (f \<noteq> [] \<and> hd f = CHR ''.'')" using assms by (simp add: visible_def)
  moreover have "bindM (stopM (Ret x)) g = g x" for x and g :: "int \<Rightarrow> (world, int) prog"
    by (rule ext) (simp add: bindM_def)
  moreover have "\<not> int n < 0" for n by simp
  ultimately show ?thesis by (simp only: print_entries.simps Let_def if_False)
qed

lemma print_entries_hidden:
  "\<not> visible f \<Longrightarrow> print_entries code path socket_send_f port (f # es) =
     print_entries code path socket_send_f port es"
  by (simp add: visible_def)

declare print_entries.simps(2) [simp del]

text \<open>In every state: the handler's blocks survive, nothing is freed twice, and with a real port
  number nothing is written outside a block.\<close>

definition listing_ends :: "world \<Rightarrow> int res \<Rightarrow> world \<Rightarrow> bool" where
  "listing_ends w r w' \<longleftrightarrow>
     frame w w' \<and> ((\<exists>n. r = Ret n) \<or> net_stop w r \<or> r = UB Null_Deref)"

lemma listing_ends_simps:
  "listing_ends w (Ret n) w' = frame w w'"
  "listing_ends w (UB Null_Deref) w' = frame w w'"
  by (simp_all add: listing_ends_def)

text \<open>
  The contract of the callback: in a state that is \<open>ready\<close> it delivers the whole message; in
  every state it stays within its frame, keeps the heap and either returns or is stopped by the
  client.
\<close>

locale line_sender =
  fixes send :: "string \<Rightarrow> (world, int) prog"
    and ready :: "world \<Rightarrow> bool"
  assumes send_ready: "ready w \<Longrightarrow> send m w = (Ret 0, w\<lparr>out := out w @ m\<rparr>)"
    and ready_out_live: "ready (w\<lparr>out := s, live := l\<rparr>) = ready w"
    and send_frame: "wp (send m) (\<lambda>r w'. frame w w' \<and> live w' = live w \<and>
          ((\<exists>n. r = Ret n) \<or> net_stop w r)) w"

text \<open>The listing, for any such callback and either version of \<open>getGopherCode\<close>.\<close>

locale lister = line_sender send ready + item_coder code item leak
  for send :: "string \<Rightarrow> (world, int) prog" and ready :: "world \<Rightarrow> bool"
    and code :: "string \<Rightarrow> (world, int) prog" and item :: "string \<Rightarrow> int res" and leak :: "string \<Rightarrow> blk list"
begin

lemma ready_live: "ready (w\<lparr>live := l\<rparr>) = ready w"
  using ready_out_live [where w = w and s = "out w" and l = l] by simp

text \<open>One visible entry, when nothing fails.\<close>

lemma print_entry:
  assumes "ready w" and "oom w = []" and "visible f"
    and "item (path @ ''/'' @ f) = Ret n" and "n \<noteq> - 1"
    and "0 \<le> port" and "port < 65536"
  shows "print_entries code path send port (f # es) w =
    print_entries code path send port es
      (w\<lparr>out := out w @ menu_line n f (path @ ''/'' @ f) (ip_buffer w) port,
         live := leak (path @ ''/'' @ f) @ live w\<rparr>)"
proof -
  let ?full = "path @ ''/'' @ f"
  let ?w1 = "w\<lparr>live := Blk_Fullpath # live w\<rparr>"
  let ?w2 = "?w1\<lparr>live := leak ?full @ Blk_Fullpath # live w\<rparr>"
  let ?line = "menu_line n f ?full (ip_buffer w) port"
  have n3: "n \<noteq> chr (CHR ''3'')" using item_no_error [OF assms(4)] by simp
  have run2: "code ?full ?w1 = (Ret n, ?w2)"
    using code_run [of ?w1 ?full] assms(2,4) by simp
  have run3: "protocol_response Blk_Line n f ?full h port ?w2 =
      (Ret (0, Some (menu_line n f ?full h port)), ?w2\<lparr>live := Blk_Line # live ?w2\<rparr>)" for h
  proof -
    have "wp (protocol_response Blk_Line n f ?full h port)
       (\<lambda>r w'. r = Ret (0, Some (menu_line n f ?full h port)) \<and> w' = ?w2\<lparr>live := Blk_Line # live ?w2\<rparr>) ?w2"
      using assms n3 by (simp add: wp_rules real_port_fits response_text_def)
    then show ?thesis by (simp add: wp_fst_snd prod_eq_iff)
  qed
  have run4: "send ?line (w\<lparr>live := l\<rparr>) = (Ret 0, w\<lparr>live := l, out := out w @ ?line\<rparr>)" for l
    using send_ready [of "w\<lparr>live := l\<rparr>"] assms(1) by (simp add: ready_live)
  have "Blk_Fullpath \<notin> set (leak ?full)" using leak_blks by blast
  then show ?thesis
    unfolding print_entries_visible [OF assms(3)]
    using assms(2) run2 run3 run4
    by (simp add: bindM_def thenM_def callocM_def freeM_def remove1_append)
qed

lemma print_entries_lists:
  assumes "ready w" and "oom w = []" and "0 \<le> port" and "port < 65536"
    and "\<And>f. f \<in> set es \<Longrightarrow> visible f \<Longrightarrow> \<exists>n. item (path @ ''/'' @ f) = Ret n \<and> n \<noteq> - 1"
  shows "print_entries code path send port es w =
    (Ret 0, w\<lparr>out := out w @ listing item path (ip_buffer w) port es,
      live := listing_leak leak path es @ live w\<rparr>)"
  using assms
proof (induction es arbitrary: w)
  case Nil
  have "w\<lparr>out := out w, live := live w\<rparr> = w" by simp
  then show ?case by (simp add: listing_def listing_leak_def)
next
  case (Cons f es)
  show ?case
  proof (cases "visible f")
    case True
    then obtain n where n: "item (path @ ''/'' @ f) = Ret n" "n \<noteq> - 1"
      using Cons.prems(5) by (meson list.set_intros(1))
    let ?w' = "w\<lparr>out := out w @ menu_line n f (path @ ''/'' @ f) (ip_buffer w) port,
         live := leak (path @ ''/'' @ f) @ live w\<rparr>"
    have "print_entries code path send port es ?w' =
      (Ret 0, ?w'\<lparr>out := out ?w' @ listing item path (ip_buffer ?w') port es,
        live := listing_leak leak path es @ live ?w'\<rparr>)"
      using Cons.prems by (intro Cons.IH) (auto simp: ready_out_live)
    moreover have "print_entries code path send port (f # es) w = print_entries code path send port es ?w'"
      using Cons.prems True n by (intro print_entry)
    moreover have "entry_code item path f = n" using n by (simp add: entry_code_def)
    ultimately show ?thesis using True by (simp add: listing_def listing_leak_def)
  next
    case False
    then have "print_entries code path send port (f # es) w = print_entries code path send port es w"
      by (simp add: print_entries_hidden)
    moreover have "listing item path h port (f # es) = listing item path h port es"
      "listing_leak leak path (f # es) = listing_leak leak path es" for h
      using False by (simp_all add: listing_def listing_leak_def)
    ultimately show ?thesis using Cons by simp
  qed
qed

lemma listing_leak_blks: "set (listing_leak leak path es) \<subseteq> {Blk_Mime, Blk_Command}"
  using leak_blks by (force simp: listing_leak_def)

lemma print_entries_ends:
  assumes "0 \<le> port" and "port < 65536" and "frame w0 w"
  shows "wp (print_entries code path send port es) (listing_ends w0) w"
  using assms(3)
proof (induction es arbitrary: w)
  case Nil
  then show ?case by (simp only: print_entries.simps(1) wp_retM listing_ends_def) blast
next
  case (Cons f es)
  let ?full = "path @ ''/'' @ f"
  let ?w1 = "\<lambda>m. w\<lparr>live := Blk_Fullpath # live w, oom := m\<rparr>"
  define rest where "rest = (\<lambda>response_line. bindM (send (the response_line)) (\<lambda>ret.
       thenM (freeM Blk_Fullpath) (thenM (freeM Blk_Line)
       (if ret < 0 then retM (- 2) else print_entries code path send port es))))"
  have rest: "wp (rest x) (listing_ends w0) v"
    if "frame w0 v" "Blk_Fullpath \<in> set (live v)" "Blk_Line \<in> set (live v)" for v x
    unfolding rest_def
  proof (rule wp_seqI [OF send_frame], goal_cases)
    case (1 y v')
    then have "frame w0 v'" "live v' = live v" using that(1) frame_trans by blast+
    moreover have "frame w0 (v'\<lparr>live := remove1 Blk_Line (remove1 Blk_Fullpath (live v'))\<rparr>)"
      using calculation by (simp del: frame_live_id) (metis frame_live_id)
    ultimately show ?case
      using that Cons.IH by (simp add: wp_rules listing_ends_simps in_set_remove1)
  qed (use that in \<open>auto simp: listing_ends_def dest: frame_obstacles intro: frame_trans\<close>)
  have step: "wp (bindM (code ?full) (\<lambda>n. bindM (getM ip_buffer) (\<lambda>host.
      bindM (protocol_response Blk_Line n f ?full host port) (\<lambda>(err, response_line).
      if err \<noteq> 0 then thenM (freeM Blk_Fullpath)
          (thenM (whenM (err = NEED_TO_FREE) (freeM Blk_Line)) (retM (- 1)))
      else rest response_line)))) (listing_ends w0) v"
    if "frame w0 v" "Blk_Fullpath \<in> set (live v)" for v
  proof (rule wp_seqI [OF code_frame], goal_cases)
    case (1 c v')
    then have "frame w0 v'" "Blk_Fullpath \<in> set (live v')" using that frame_trans by blast+
    then show ?case
      using assms by (auto simp: wp_rules real_port_fits listing_ends_def free_codes rest
          split: list.split)
  qed (use that in \<open>auto simp: listing_ends_def dest: frame_obstacles intro: frame_trans\<close>)
  show ?case
  proof (cases "visible f")
    case True
    have "wp (bindM (callocM Blk_Fullpath) (\<lambda>ok. if \<not> ok then retM (- 1)
        else bindM (code ?full) (\<lambda>n. bindM (getM ip_buffer) (\<lambda>host.
          bindM (protocol_response Blk_Line n f ?full host port) (\<lambda>(err, response_line).
          if err \<noteq> 0 then thenM (freeM Blk_Fullpath)
              (thenM (whenM (err = NEED_TO_FREE) (freeM Blk_Line)) (retM (- 1)))
          else rest response_line))))) (listing_ends w0) w"
    proof (rule wp_seqI [OF callocM_frame], goal_cases)
      case (2 ok v)
      then have "frame w0 v" using Cons.prems frame_trans by blast
      then show ?case
        using 2 by (cases ok) (simp_all only: step res.simps simp_thms if_True if_False wp_retM
            listing_ends_simps)
    qed auto
    then show ?thesis unfolding print_entries_visible [OF True] rest_def .
  next
    case False
    then show ?thesis using Cons print_entries_hidden by simp
  qed
qed

end

section \<open>Where requests lead\<close>

lemma resolve_run:
  assumes "oom w = []"
  shows "resolve_selector root sel w =
    (if root = [] then UB Out_Of_Bounds else Ret (0, Some (resolved root sel)),
     w\<lparr>live := Blk_Path # live w\<rparr>)"
proof -
  have "wp (resolve_selector root sel) (\<lambda>r w'.
     r = (if root = [] then UB Out_Of_Bounds else Ret (0, Some (resolved root sel))) \<and>
     w' = w\<lparr>live := Blk_Path # live w\<rparr>) w"
    using assms by (simp add: wp_rules)
  then show ?thesis by (simp add: wp_fst_snd prod_eq_iff)
qed

lemma resolved_prefix: "take (length root) (resolved root sel) = root"
  by (simp add: resolved_def)

text \<open>A component of a path, and the absolute path with given components.\<close>

definition component :: "string \<Rightarrow> bool" where
  "component c \<longleftrightarrow> c \<noteq> [] \<and> c \<noteq> ''.'' \<and> OS_SEPARATOR \<notin> set c"

definition abs_path :: "string list \<Rightarrow> string" where
  "abs_path cs = List.concat (map (\<lambda>c. OS_SEPARATOR # c) cs)"

lemma comps_component: "component c \<Longrightarrow> comps c = [c]"
  by (simp add: component_def comps_def split_on_none)

lemma comps_abs_path: "list_all component cs \<Longrightarrow> comps (abs_path cs) = cs"
proof (induction cs rule: rev_induct)
  case (snoc c cs)
  then have "comps (abs_path cs @ OS_SEPARATOR # c) = cs @ [c]"
    by (simp add: comps_append comps_component)
  then show ?case by (simp add: abs_path_def)
qed (simp add: abs_path_def)

lemma length_walk: "length (walk st cs) \<le> length st + length cs"
proof (induction st cs rule: walk.induct)
  case (2 st c cs)
  then show ?case by (cases "c = ''..''") auto
qed simp

section \<open>Properties\<close>

text \<open>Claim C18. The path of a request is the root directory, one separator, and the selector
  without its leading separator; it always fits its block. Only an empty root directory makes
  the code read outside an array.\<close>

theorem resolve_selector_path:
  assumes "oom w = []"
  shows "(root = [] \<longrightarrow> fst (resolve_selector root sel w) = UB Out_Of_Bounds) \<and>
    (root \<noteq> [] \<longrightarrow> (\<exists>p. resolve_selector root sel w = (Ret (0, Some p), w\<lparr>live := Blk_Path # live w\<rparr>) \<and>
       comps p = comps root @ comps sel \<and> take (length root) p = root))"
  using assms by (simp add: resolve_run comps_resolved resolved_prefix)

theorem resolve_selector_path_witness:
  "\<exists>w p. fst (resolve_selector ''/srv/'' ''/a'' w) = Ret (0, Some p) \<and> comps p = [''srv'', ''a'']"
proof -
  fix w0 :: world
  show ?thesis
    using resolve_selector_path [of "w0\<lparr>oom := []\<rparr>" "''/srv/''" "''/a''"]
    by (auto simp: comps_def OS_SEPARATOR_def intro!: exI [of _ "w0\<lparr>oom := []\<rparr>"])
qed

lemma leads_resolved:
  assumes "root \<noteq> []"
  shows "leads d (resolved root sel) = walk (leads d root) (comps sel)"
  using assms by (simp add: leads_def comps_resolved walk_append) (simp add: resolved_def)

text \<open>Claim C17. A selector without \<open>..\<close> stays below the root directory, for absolute roots and for roots
  that are relative to the working directory: it leads to where the root leads, extended by the
  selector's components.\<close>

theorem resolve_selector_confined:
  assumes "oom w = []" and "root \<noteq> []" and "''..'' \<notin> set (comps sel)"
  shows "\<exists>p. fst (resolve_selector root sel w) = Ret (0, Some p) \<and>
    (\<forall>d. leads d p = rev (comps sel) @ leads d root)"
  using assms by (simp add: resolve_run leads_resolved walk_plain)

theorem resolve_selector_confined_witness:
  "\<exists>w p. fst (resolve_selector ''.'' ''/a/b'' w) = Ret (0, Some p) \<and>
     leads ''/srv'' p = [''b'', ''a'', ''srv'']"
proof -
  fix w0 :: world
  have c: "comps ''/a/b'' = [''a'', ''b'']" "comps ''/srv'' = [''srv'']" "comps ''.'' = []"
    by (simp_all add: comps_def OS_SEPARATOR_def)
  have "leads ''/srv'' ''.'' = [''srv'']" by (simp add: leads_def c OS_SEPARATOR_def)
  moreover have "oom (w0\<lparr>oom := []\<rparr>) = []" "''.'' \<noteq> []" "''..'' \<notin> set (comps ''/a/b'')" by (simp_all add: c)
  then obtain p where "fst (resolve_selector ''.'' ''/a/b'' (w0\<lparr>oom := []\<rparr>)) = Ret (0, Some p)"
    "\<forall>d. leads d p = rev (comps ''/a/b'') @ leads d ''.''"
    using resolve_selector_confined by blast
  ultimately show ?thesis by (intro exI [of _ "w0\<lparr>oom := []\<rparr>"] exI [of _ p]) (simp add: c)
qed

lemma length_leads: "length (leads d p) \<le> length (comps d) + length (comps p)"
  using length_walk [of "[]" "comps d"] length_walk [of "walk [] (comps d)" "comps p"]
    length_walk [of "[]" "comps p"]
  by (simp add: leads_def)

lemma abs_path_append: "abs_path (a @ b) = abs_path a @ abs_path b"
  by (simp add: abs_path_def)

lemma length_abs_path_ups: "length (abs_path (replicate n ''..'')) = 3 * n"
  by (induction n) (simp_all add: abs_path_def)

lemma set_abs_path: "set (abs_path cs) \<subseteq> insert OS_SEPARATOR (\<Union>c\<in>set cs. set c)"
  by (auto simp: abs_path_def)

text \<open>Claim C19. Selectors with \<open>..\<close> are not filtered: whatever the root directory, absolute or relative to
  the working directory \<open>d\<close>, a selector that goes up often enough leads to every file of the system whose path
  is short enough for the receive buffer, and the selector can be sent as a request: it fits the
  buffer and contains neither a newline nor a NUL.\<close>

theorem resolve_selector_escapes:
  assumes "oom w = []" and "root \<noteq> []" and "list_all component target" and "''..'' \<notin> set target"
    and "\<forall>c\<in>set target. NL \<notin> set c \<and> nul_free c"
    and "3 * (length (comps d) + length (comps root)) + length (abs_path target) + 2 < BUFFER_SIZE"
  shows "\<exists>sel p. length (sel @ [CR, NL]) < BUFFER_SIZE \<and> NL \<notin> set sel \<and> nul_free sel \<and>
    fst (resolve_selector root sel w) = Ret (0, Some p) \<and> leads d p = rev target"
proof -
  let ?ups = "replicate (length (comps d) + length (comps root)) ''..''"
  let ?sel = "abs_path (?ups @ target)"
  have "list_all component (?ups @ target)"
    using assms(3) by (auto simp: component_def OS_SEPARATOR_def list_all_iff)
  then have "comps ?sel = ?ups @ target" by (rule comps_abs_path)
  moreover have "walk (leads d root) ?ups = []" using length_leads [of d root] by (simp add: walk_up)
  ultimately have "leads d (resolved root ?sel) = rev target"
    using assms(2,4) by (simp add: leads_resolved walk_append walk_plain)
  moreover have "length (?sel @ [CR, NL]) < BUFFER_SIZE"
    using assms(6) by (simp add: abs_path_append length_abs_path_ups)
  moreover have "set ?sel \<subseteq> insert OS_SEPARATOR (\<Union>c\<in>set (?ups @ target). set c)" by (rule set_abs_path)
  then have "NL \<notin> set ?sel \<and> nul_free ?sel"
    using assms(5) by (fastforce simp: OS_SEPARATOR_def nul_free_def)
  ultimately show ?thesis using assms(1,2) by (intro exI [of _ ?sel] exI [of _ "resolved root ?sel"]) (simp add: resolve_run)
qed

theorem resolve_selector_escapes_witness:
  "\<exists>w sel p. length (sel @ [CR, NL]) < BUFFER_SIZE \<and> fst (resolve_selector ''.'' sel w) = Ret (0, Some p) \<and>
     leads ''/srv/build'' p = [''passwd'', ''etc'']"
proof -
  fix w0 :: world
  have "comps ''/srv/build'' = [''srv'', ''build'']" "comps ''.'' = []"
    by (simp_all add: comps_def OS_SEPARATOR_def)
  then show ?thesis
    using resolve_selector_escapes [of "w0\<lparr>oom := []\<rparr>" "''.''" "[''etc'', ''passwd'']" "''/srv/build''"]
    by (auto simp: component_def OS_SEPARATOR_def nul_free_def abs_path_def BUFFER_SIZE_def)
qed

text \<open>The selector of a menu link is the server's own path of the entry. Requesting it
  leads back to the entry only when the root directory has no components, like \<open>/\<close>.\<close>

theorem link_leads_back_iff:
  assumes "oom w = []" and "root \<noteq> []"
  shows "\<exists>p q. fst (resolve_selector root sel w) = Ret (0, Some p) \<and>
    fst (resolve_selector root (p @ ''/'' @ f) w) = Ret (0, Some q) \<and>
    (comps q = comps (p @ ''/'' @ f) \<longleftrightarrow> comps root = [])"
proof -
  have "comps (resolved root sel @ CHR ''/'' # f) = comps root @ comps sel @ comps f"
    using comps_append [of "resolved root sel" f] assms(2)
    by (simp add: comps_resolved OS_SEPARATOR_def)
  then show ?thesis using assms by (simp add: resolve_run comps_resolved)
qed

theorem link_leads_back_iff_witness:
  "\<exists>w p q. fst (resolve_selector ''/srv'' [] w) = Ret (0, Some p) \<and>
    fst (resolve_selector ''/srv'' (p @ ''/'' @ ''a'') w) = Ret (0, Some q) \<and>
    comps q \<noteq> comps (p @ ''/'' @ ''a'')"
proof -
  fix w0 :: world
  have "comps ''/srv'' \<noteq> []" by (simp add: comps_def OS_SEPARATOR_def)
  moreover have "oom (w0\<lparr>oom := []\<rparr>) = []" by simp
  note link_leads_back_iff [OF this, of "''/srv''" "[]" "''a''"]
  ultimately show ?thesis by blast
qed

text \<open>Claim C21. A menu line says what it was made of: reading it back as a client does gives the
  type, the name, the path, the host and the port, for every port number of TCP and fields
  without tabs and newlines. The line always fits its block.\<close>

theorem menu_line_roundtrip:
  assumes "oom w = []" and "type \<noteq> - 1" and "type \<noteq> chr (CHR ''3'')"
    and "char_of type \<notin> {TAB, NL}" and "field f" and "field p" and "field h"
    and "0 \<le> port" and "port < 65536"
  shows "\<exists>l. protocol_response b type f p h port w = (Ret (0, Some l), w\<lparr>live := b # live w\<rparr>) \<and>
    parse_menu_line l = Some (char_of type, f, p, h, port)"
proof -
  let ?l = "menu_line type f p h port"
  have "wp (protocol_response b type f p h port)
     (\<lambda>r w'. r = Ret (0, Some ?l) \<and> w' = w\<lparr>live := b # live w\<rparr>) w"
    using assms by (simp add: wp_rules real_port_fits response_text_def)
  then have run: "protocol_response b type f p h port w = (Ret (0, Some ?l), w\<lparr>live := b # live w\<rparr>)"
    by (simp add: wp_fst_snd prod_eq_iff)
  have "field (show_int port)" by simp
  then have "NL \<notin> set ((char_of type # f) @ TAB # p @ TAB # h @ TAB # show_int port)"
    using assms(4-7) by (auto simp: field_def)
  from takeWhile_line [OF this]
  have "takeWhile (\<lambda>c. c \<noteq> NL) ?l =
      (char_of type # f) @ TAB # p @ TAB # h @ TAB # show_int port"
    by (simp only: menu_line_def append.simps append_assoc)
  moreover have "split_on TAB ((char_of type # f) @ TAB # p @ TAB # h @ TAB # show_int port) =
      [char_of type # f, p, h, show_int port]"
    using assms(4-7) \<open>field (show_int port)\<close>
    unfolding split_on_append by (simp add: split_on_none field_def)
  ultimately have "parse_menu_line ?l = Some (char_of type, f, p, h, port)"
    using assms(8,9) by (simp add: parse_menu_line_def ut_strtoint_show)
  with run show ?thesis by blast
qed

theorem menu_line_roundtrip_witness:
  "\<exists>w l. fst (protocol_response Blk_Line (chr (CHR ''0'')) ''a.txt'' ''/srv/a.txt'' ''10.0.0.1'' 70 w)
      = Ret (0, Some l) \<and>
    parse_menu_line l = Some (CHR ''0'', ''a.txt'', ''/srv/a.txt'', ''10.0.0.1'', 70)"
proof -
  fix w0 :: world
  have "char_of (48::int) = CHR ''0''" by (simp add: char_of_def)
  then show ?thesis
    using menu_line_roundtrip [of "w0\<lparr>oom := []\<rparr>" "chr (CHR ''0'')" "''a.txt''" "''/srv/a.txt''"
        "''10.0.0.1''" 70 Blk_Line]
    by (auto simp: field_def intro!: exI [of _ "w0\<lparr>oom := []\<rparr>"])
qed

text \<open>The error response is not a menu line: it has three fields where a menu line has
  four, so a client that reads it as one finds no port.\<close>

theorem error_line_not_menu:
  assumes "oom w = []" and "field f" and "0 \<le> port" and "port < 65536"
  shows "\<exists>l. fst (protocol_response b (chr (CHR ''3'')) f p h port w) = Ret (0, Some l) \<and>
    parse_menu_line l = None"
proof -
  let ?l = "error_line f port"
  have "wp (protocol_response b (chr (CHR ''3'')) f p h port) (\<lambda>r w'. r = Ret (0, Some ?l)) w"
    using assms by (simp add: wp_rules real_port_fits response_text_def)
  then have run: "fst (protocol_response b (chr (CHR ''3'')) f p h port w) = Ret (0, Some ?l)"
    by (simp add: wp_fst_snd)
  have fields: "field (show_int port)" "field error_text" by (simp_all add: field_def error_text_def field_show_int [unfolded field_def])
  then have "takeWhile (\<lambda>c. c \<noteq> NL) ?l = (CHR ''3'' # f) @ TAB # error_text @ TAB # show_int port"
    using assms(2) takeWhile_line [of "(CHR ''3'' # f) @ TAB # error_text @ TAB # show_int port"]
    by (simp add: error_line_def field_def)
  moreover have "split_on TAB ((CHR ''3'' # f) @ TAB # error_text @ TAB # show_int port) =
      [CHR ''3'' # f, error_text, show_int port]"
    using assms(2) fields unfolding split_on_append by (simp add: split_on_none field_def)
  ultimately have "parse_menu_line ?l = None" by (simp add: parse_menu_line_def)
  with run show ?thesis by blast
qed

theorem error_line_not_menu_witness:
  "\<exists>w l. fst (protocol_response Blk_Msg (chr (CHR ''3'')) ''x'' [] [] 70 w) = Ret (0, Some l) \<and>
    parse_menu_line l = None"
proof -
  fix w0 :: world
  show ?thesis
    using error_line_not_menu [of "w0\<lparr>oom := []\<rparr>" "''x''" 70 Blk_Msg "[]" "[]"]
    by (auto simp: field_def)
qed

text \<open>Claim C38. The block for a response is large enough exactly for the ports that are printed
  with at most nine characters, ten for an error. A configuration may hold a negative port,
  which is printed with up to eleven: then the line overflows the block.\<close>

theorem protocol_response_overflow_iff:
  assumes "oom w = []" and "type \<noteq> - 1"
  shows "fst (protocol_response b type f p h port w) = UB Out_Of_Bounds \<longleftrightarrow>
    (if type = chr (CHR ''3'') then port \<le> - (10 ^ 9) \<or> 10 ^ 10 \<le> port
     else port \<le> - (10 ^ 8) \<or> 10 ^ 9 \<le> port)"
proof -
  have "wp (protocol_response b type f p h port)
     (\<lambda>r w'. r = (if response_fits type port then Ret (0, Some (response_text type f p h port))
                  else UB Out_Of_Bounds)) w"
    using assms by (simp add: wp_rules)
  then have "fst (protocol_response b type f p h port w) = UB Out_Of_Bounds \<longleftrightarrow>
      \<not> response_fits type port"
    by (simp add: wp_fst_snd)
  then show ?thesis by (auto simp: response_fits_iff)
qed

theorem protocol_response_overflow_iff_witness:
  "\<exists>w. fst (protocol_response Blk_Line (chr (CHR ''0'')) ''a'' ''/a'' ''h'' (- 2000000000) w)
      = UB Out_Of_Bounds"
proof -
  fix w0 :: world
  show ?thesis
    using protocol_response_overflow_iff [of "w0\<lparr>oom := []\<rparr>" "chr (CHR ''0'')" Blk_Line "''a''"
        "''/a''" "''h''" "- 2000000000"]
    by auto
qed

end
