(* ===== verification/FilesInteraction.thy ===== *)
theory FilesInteraction
  imports Utils
begin

unbundle bit_operations_syntax

text \<open>
  \<open>general/lib/io/files_interaction.c\<close>: what kind of file a path names, and \<open>blackListFile\<close>
  of both platforms, which keeps the server's own log file from being served.

  \<open>s_format\<close> is the file format field of \<open>st_mode\<close>; the theorems relate the bit tests of the
  code to it.
\<close>

section \<open>Definitions\<close>

definition S_IFMT :: "32 word" where "S_IFMT = 0xF000"
definition S_IFIFO :: "32 word" where "S_IFIFO = 0x1000"
definition S_IFCHR :: "32 word" where "S_IFCHR = 0x2000"
definition S_IFDIR :: "32 word" where "S_IFDIR = 0x4000"
definition S_IFBLK :: "32 word" where "S_IFBLK = 0x6000"
definition S_IFREG :: "32 word" where "S_IFREG = 0x8000"
definition S_IFLNK :: "32 word" where "S_IFLNK = 0xA000"
definition S_IFSOCK :: "32 word" where "S_IFSOCK = 0xC000"

lemmas formats = S_IFMT_def S_IFIFO_def S_IFCHR_def S_IFDIR_def S_IFBLK_def S_IFREG_def
  S_IFLNK_def S_IFSOCK_def

definition file_exist :: "os \<Rightarrow> string \<Rightarrow> bool" where
  "file_exist env filename = (os_stat env filename \<noteq> None)"

text \<open>\<open>realpath (path, NULL)\<close> allocates its result; the caller of the code never frees it.\<close>

definition realpath :: "os \<Rightarrow> blk \<Rightarrow> string \<Rightarrow> (world, string option) prog" where
  "realpath env b path =
     (case os_realpath env path of
        None \<Rightarrow> retM None
      | Some r \<Rightarrow> thenM (lib_alloc b) (retM (Some r)))"

definition blackListFile :: "os \<Rightarrow> string \<Rightarrow> string \<Rightarrow> string \<Rightarrow> (world, int) prog" where
  "blackListFile env baseDir pathFile black_listed_file =
     (let base_name = basename pathFile
      in if strcmp black_listed_file base_name \<noteq> 0 then retM 0
         else bindM (realpath env Blk_Base_Abs baseDir) (\<lambda>base_dir_abs.
              bindM (realpath env Blk_Path_Abs pathFile) (\<lambda>path_file_abs.
              if strcmp (dirname base_dir_abs) (dirname path_file_abs) \<noteq> 0 then retM 0
              else retM 1)))"

text \<open>
  The Windows version. \<open>GetFullPathNameA\<close> writes into an array of the given size; it returns 0
  when it fails. Its result is the path, or None for 0.
\<close>

definition win_blackListFile ::
  "(string \<Rightarrow> string option) \<Rightarrow> string \<Rightarrow> string \<Rightarrow> string \<Rightarrow> int" where
  "win_blackListFile fullpath baseDir pathFile black_listed_file =
     (let base_name = win_basename pathFile
      in if strcmp black_listed_file base_name \<noteq> 0 then 0
         else case fullpath baseDir of
             None \<Rightarrow> - 1
           | Some base_dir_abs \<Rightarrow>
               (case fullpath pathFile of
                  None \<Rightarrow> - 1
                | Some path_file_abs \<Rightarrow>
                    if strcmp (win_dirname base_dir_abs) (win_dirname path_file_abs) \<noteq> 0
                    then 0 else 1))"

definition log_file_name :: string where
  "log_file_name = ''gopher_log_file.txt''"

definition file_type :: "os \<Rightarrow> string \<Rightarrow> (world, int) prog" where
  "file_type env filename =
     (case os_stat env filename of
        None \<Rightarrow> retM FILES_NOT_EXIST
      | Some st_mode \<Rightarrow>
          if st_mode AND S_IFDIR \<noteq> 0 then retM FILES_IS_DIRECTORY
          else if st_mode AND S_IFREG \<noteq> 0 then
            bindM (getM cwd) (\<lambda>d.
            bindM (blackListFile env d filename log_file_name) (\<lambda>b.
            if b \<noteq> 0 then retM FILES_NOT_PERMITTED else retM FILES_IS_REG_FILE))
          else retM FILES_IS_UNMANAGED_FILE)"

text \<open>\<open>write_log_accessFile\<close> appends to an open stream, given here by what was written to it.\<close>

definition write_log_accessFile :: "string \<Rightarrow> string option \<Rightarrow> int \<times> string option" where
  "write_log_accessFile str fp =
     (case fp of
        None \<Rightarrow> (Assert_nb False, None)
      | Some written \<Rightarrow> (0, Some (written @ str)))"

section \<open>Lemmas\<close>

definition s_format :: "32 word \<Rightarrow> 32 word" where
  "s_format m = m AND S_IFMT"

text \<open>Whether the path is the server's own log file, as the code decides it.\<close>

definition black_listed :: "os \<Rightarrow> string \<Rightarrow> string \<Rightarrow> bool" where
  "black_listed env d path \<longleftrightarrow>
     basename path = log_file_name \<and> dirname (os_realpath env d) = dirname (os_realpath env path)"

lemma wp_realpath [wp_rules]:
  "wp (realpath env b path) Q w =
     (case os_realpath env path of
        None \<Rightarrow> Q (Ret None) w
      | Some r \<Rightarrow> Q (Ret (Some r)) (w\<lparr>live := b # live w\<rparr>))"
  by (simp add: realpath_def wp_rules split: option.split)

text \<open>The blocks that \<open>realpath\<close> leaves behind.\<close>

definition realpath_blks :: "os \<Rightarrow> string \<Rightarrow> string \<Rightarrow> blk list" where
  "realpath_blks env d path =
     (if basename path = log_file_name
      then (case os_realpath env path of None \<Rightarrow> [] | Some _ \<Rightarrow> [Blk_Path_Abs]) @
           (case os_realpath env d of None \<Rightarrow> [] | Some _ \<Rightarrow> [Blk_Base_Abs])
      else [])"

lemma set_realpath_blks: "set (realpath_blks env d path) \<subseteq> {Blk_Path_Abs, Blk_Base_Abs}"
  by (auto simp: realpath_blks_def split: option.splits)

lemma blackListFile_run:
  "blackListFile env d path log_file_name w =
     (Ret (if black_listed env d path then 1 else 0),
      w\<lparr>live := realpath_blks env d path @ live w\<rparr>)"
proof -
  have "wp (blackListFile env d path log_file_name)
     (\<lambda>r w'. r = Ret (if black_listed env d path then 1 else 0) \<and>
       w' = w\<lparr>live := realpath_blks env d path @ live w\<rparr>) w"
    by (auto simp: blackListFile_def Let_def wp_rules black_listed_def realpath_blks_def
        split: option.split)
  then show ?thesis by (simp add: wp_fst_snd prod_eq_iff)
qed

text \<open>What \<open>file_type\<close> decides, from the mode and the path alone.\<close>

definition file_class :: "os \<Rightarrow> string \<Rightarrow> string \<Rightarrow> int" where
  "file_class env d path =
     (case os_stat env path of
        None \<Rightarrow> FILES_NOT_EXIST
      | Some m \<Rightarrow>
          if m AND S_IFDIR \<noteq> 0 then FILES_IS_DIRECTORY
          else if m AND S_IFREG \<noteq> 0 then
            (if black_listed env d path then FILES_NOT_PERMITTED else FILES_IS_REG_FILE)
          else FILES_IS_UNMANAGED_FILE)"

definition file_type_blks :: "os \<Rightarrow> string \<Rightarrow> string \<Rightarrow> blk list" where
  "file_type_blks env d path =
     (case os_stat env path of
        None \<Rightarrow> []
      | Some m \<Rightarrow> if m AND S_IFDIR = 0 \<and> m AND S_IFREG \<noteq> 0 then realpath_blks env d path else [])"

lemma set_file_type_blks: "set (file_type_blks env d path) \<subseteq> {Blk_Path_Abs, Blk_Base_Abs}"
  using set_realpath_blks by (auto simp: file_type_blks_def split: option.splits)

lemma file_type_run:
  "file_type env path w =
     (Ret (file_class env (cwd w) path), w\<lparr>live := file_type_blks env (cwd w) path @ live w\<rparr>)"
  by (cases "os_stat env path")
    (simp_all add: file_type_def file_class_def file_type_blks_def bindM_def blackListFile_run)

lemma wp_file_type [wp_rules]:
  "wp (file_type env path) Q w =
     Q (Ret (file_class env (cwd w) path)) (w\<lparr>live := file_type_blks env (cwd w) path @ live w\<rparr>)"
  by (simp add: wp_def file_type_run)

lemma file_class_range: "file_class env d path \<in>
    {FILES_NOT_EXIST, FILES_IS_DIRECTORY, FILES_IS_REG_FILE, FILES_IS_UNMANAGED_FILE,
     FILES_NOT_PERMITTED}"
  by (simp add: file_class_def split: option.split)

text \<open>A bit of the format field can be tested in the whole mode.\<close>

lemma and_format: "b AND S_IFMT = b \<Longrightarrow> m AND b = s_format m AND b"
  by (simp add: s_format_def and.assoc and.commute [of S_IFMT b])

lemma format_bits:
  "m AND S_IFDIR = s_format m AND S_IFDIR" "m AND S_IFREG = s_format m AND S_IFREG"
  by (rule and_format, simp add: formats)+

definition valid_format :: "32 word \<Rightarrow> bool" where
  "valid_format f \<longleftrightarrow>
     f \<in> {S_IFIFO, S_IFCHR, S_IFDIR, S_IFBLK, S_IFREG, S_IFLNK, S_IFSOCK}"

lemma format_tests:
  assumes "valid_format (s_format m)"
  shows "m AND S_IFDIR \<noteq> 0 \<longleftrightarrow> s_format m \<in> {S_IFDIR, S_IFBLK, S_IFSOCK}"
    and "m AND S_IFDIR = 0 \<and> m AND S_IFREG \<noteq> 0 \<longleftrightarrow> s_format m \<in> {S_IFREG, S_IFLNK}"
proof -
  from assms consider "s_format m = S_IFIFO" | "s_format m = S_IFCHR" | "s_format m = S_IFDIR"
    | "s_format m = S_IFBLK" | "s_format m = S_IFREG" | "s_format m = S_IFLNK"
    | "s_format m = S_IFSOCK"
    unfolding valid_format_def by blast
  then show "m AND S_IFDIR \<noteq> 0 \<longleftrightarrow> s_format m \<in> {S_IFDIR, S_IFBLK, S_IFSOCK}"
    by cases (simp_all only: format_bits [of m], simp_all add: formats)
  from assms consider "s_format m = S_IFIFO" | "s_format m = S_IFCHR" | "s_format m = S_IFDIR"
    | "s_format m = S_IFBLK" | "s_format m = S_IFREG" | "s_format m = S_IFLNK"
    | "s_format m = S_IFSOCK"
    unfolding valid_format_def by blast
  then show "m AND S_IFDIR = 0 \<and> m AND S_IFREG \<noteq> 0 \<longleftrightarrow> s_format m \<in> {S_IFREG, S_IFLNK}"
    by cases (simp_all only: format_bits [of m], simp_all add: formats)
qed

section \<open>Properties\<close>

text \<open>Claim C24. Classification of a path by the format field of its mode: the bit tests take
  block devices and sockets for directories; regular files are served unless they are the log
  file; fifos and character devices are not managed.\<close>

theorem file_type_formats:
  assumes "os_stat env path = Some m" and "valid_format (s_format m)"
  shows "fst (file_type env path w) = Ret
    (if s_format m \<in> {S_IFDIR, S_IFBLK, S_IFSOCK} then FILES_IS_DIRECTORY
     else if s_format m \<in> {S_IFREG, S_IFLNK}
       then (if black_listed env (cwd w) path then FILES_NOT_PERMITTED else FILES_IS_REG_FILE)
     else FILES_IS_UNMANAGED_FILE)"
  using format_tests [OF assms(2)] assms(1)
  by (auto simp: file_type_run file_class_def)

theorem file_type_formats_witness:
  "\<exists>env w. fst (file_type env ''sock'' w) = Ret FILES_IS_DIRECTORY"
proof -
  define env where "env = \<lparr>os_stat = \<lambda>_. Some (0xC1ED :: 32 word), os_realpath = \<lambda>_. None,
    os_opendir = \<lambda>_. None, os_popen = \<lambda>_. Popen_Eof, os_open = \<lambda>_. False,
    os_fstat = \<lambda>_. None, os_mmap = \<lambda>_. None, os_thread = True\<rparr>"
  have "s_format (0xC1ED :: 32 word) = S_IFSOCK" by (simp add: s_format_def formats)
  then have "fst (file_type env ''sock'' w) = Ret FILES_IS_DIRECTORY" for w
    using file_type_formats [of env "''sock''" "0xC1ED" w] by (simp add: env_def valid_format_def)
  then show ?thesis by blast
qed

text \<open>Claim C25. The log file that the log process writes, \<open>gopher_log_file.txt\<close> in the parent of
  the working directory, is never served under its own name, whatever path leads to it.\<close>

theorem log_file_not_permitted:
  assumes "os_stat env (d @ ''/gopher_log_file.txt'') = Some m"
    and "s_format m = S_IFREG"
    and "os_realpath env (cwd w) = Some (p @ CHR ''/'' # c)"
    and "os_realpath env (d @ ''/gopher_log_file.txt'') = Some (p @ ''/gopher_log_file.txt'')"
    and "p \<noteq> []" and "last p \<noteq> CHR ''/''" and "c \<noteq> []" and "CHR ''/'' \<notin> set c"
  shows "fst (file_type env (d @ ''/gopher_log_file.txt'') w) = Ret FILES_NOT_PERMITTED"
proof -
  have "basename (d @ ''/gopher_log_file.txt'') = log_file_name"
    using basename_last [of "''gopher_log_file.txt''" d] by (simp add: log_file_name_def)
  moreover have "dirname (Some (p @ CHR ''/'' # c)) = p"
    using assms(5-8) by (rule dirname_last)
  moreover have "dirname (Some (p @ ''/gopher_log_file.txt'')) = p"
    using assms(5,6) dirname_last [of p "''gopher_log_file.txt''"] by simp
  ultimately have "black_listed env (cwd w) (d @ ''/gopher_log_file.txt'')"
    using assms(3,4) by (simp add: black_listed_def)
  moreover have "valid_format (s_format m)" using assms(2) by (simp add: valid_format_def)
  note format_tests [OF this]
  ultimately show ?thesis
    using assms(1,2) by (auto simp: file_type_run file_class_def formats)
qed

theorem log_file_not_permitted_witness:
  "\<exists>env w. fst (file_type env ''/srv/gopher_log_file.txt'' w) = Ret FILES_NOT_PERMITTED"
proof -
  define env where "env = \<lparr>os_stat = \<lambda>_. Some (0x81A4 :: 32 word),
    os_realpath = \<lambda>p. if p = ''/srv/build'' then Some ''/srv/build''
                      else Some ''/srv/gopher_log_file.txt'',
    os_opendir = \<lambda>_. None, os_popen = \<lambda>_. Popen_Eof, os_open = \<lambda>_. False,
    os_fstat = \<lambda>_. None, os_mmap = \<lambda>_. None, os_thread = True\<rparr>"
  fix w0 :: world
  have "fst (file_type env (''/srv'' @ ''/gopher_log_file.txt'') (w0\<lparr>cwd := ''/srv/build''\<rparr>))
      = Ret FILES_NOT_PERMITTED"
    by (rule log_file_not_permitted [where m = "0x81A4" and p = "''/srv''" and c = "''build''"])
      (simp_all add: env_def s_format_def formats)
  then show ?thesis by auto
qed

end
