(* ===== verification/Socket.thy ===== *)
theory Socket
  imports Protocol FilesInteraction
begin

text \<open>
  \<open>general/lib/socket/socket.c\<close>: reading a request, sending messages and errors, and the end of
  every request, \<open>clean_request\<close>. The handler that uses them is in \<open>Request\<close>.

  \<^item> The receive buffer is the list of its \<open>BUFFER_SIZE + 1\<close> bytes. Both receive loops are
    recursive functions; they end because every turn consumes a receive event.
  \<^item> \<open>request_of\<close> says which selector a stream of bytes asks for; the reader's theorem is that it
    computes it, however the stream is cut into segments and interrupted by signals.
\<close>

section \<open>Definitions\<close>

text \<open>\<open>clean_request\<close> does not return, so it has every result type. The pointers are given by
  whether they are not NULL.\<close>

definition clean_request :: "bool \<Rightarrow> bool \<Rightarrow> (world, 'a) prog" where
  "clean_request path buf =
     thenM (whenM path (freeM Blk_Path))
     (thenM (whenM buf (freeM Blk_Buf))
     (bindM (getM w_args) (\<lambda>args.
      thenM (whenM (type_Request args \<noteq> 0) close_client)
     (thenM (freeM Blk_Ip)
     (if mode_concurrency (configs args) = M_THREAD
      then thenM (freeM Blk_Args) (stopM Thread_Exit)
      else thenM (freeM Blk_Args) (stopM (Exit 0)))))))"

text \<open>The Windows version: the socket is closed in thread mode only.\<close>

definition win_clean_request :: "bool \<Rightarrow> bool \<Rightarrow> (world, 'a) prog" where
  "win_clean_request path buf =
     thenM (whenM path (freeM Blk_Path))
     (thenM (whenM buf (freeM Blk_Buf))
     (bindM (getM w_args) (\<lambda>args.
      if mode_concurrency (configs args) = M_THREAD
      then thenM close_client (thenM (freeM Blk_Args) (stopM Thread_Exit))
      else thenM (freeM Blk_Args) (stopM (Exit 0)))))"

definition socket_resolve_selector :: "string \<Rightarrow> (world, string option) prog" where
  "socket_resolve_selector buf =
     bindM (getM (\<lambda>w. root_dir (configs (w_args w)))) (\<lambda>root.
     bindM (stopM (array_str BUFFER_SIZE root)) (\<lambda>gopher_root.
     bindM (resolve_selector gopher_root buf) (\<lambda>(ret, path).
     if ret = NO_FREE then clean_request False True
     else if ret = NEED_TO_FREE then clean_request (path \<noteq> None) True
     else retM path)))"

subsection \<open>Receiving\<close>

text \<open>Every turn of the receive loops consumes part of what is to be received.\<close>

definition rx_weight :: "world \<Rightarrow> nat" where
  "rx_weight w = sum_list (map (\<lambda>e. case e of Rx_Data bs \<Rightarrow> Suc (length bs) | _ \<Rightarrow> 1) (rx w))"

lemma recvM_weight:
  "recvM n w = (Ret (Got bs), w') \<Longrightarrow> bs \<noteq> [] \<Longrightarrow> rx_weight w' < rx_weight w"
  "recvM n w = (Ret Recv_Eintr, w') \<Longrightarrow> rx_weight w' < rx_weight w"
  by (auto simp: recvM_def rx_weight_def split: if_splits list.splits rx_event.splits)

lemma bindM_cong [fundef_cong]:
  "\<lbrakk> s = s'; m s' = m' s'; \<And>x t. m' s' = (Ret x, t) \<Longrightarrow> f x t = f' x t \<rbrakk>
   \<Longrightarrow> bindM m f s = bindM m' f' s'"
  by (auto simp: bindM_def split: prod.splits res.splits)

function socket_drain_tcp :: "world \<Rightarrow> int res \<times> world" where
  "socket_drain_tcp w =
     bindM (recvM BUFFER_SIZE) (\<lambda>r w1. case r of
         Recv_Eintr \<Rightarrow> socket_drain_tcp w1
       | Recv_Error \<Rightarrow> (Ret (- 1), w1)
       | Got bufTMP \<Rightarrow>
           if bufTMP = [] then (Ret 0, w1)
           else bindM (stopM (ut_get_line bufTMP (length bufTMP))) (\<lambda>found w2.
                if fst found \<noteq> 0 then (Ret 0, w2) else socket_drain_tcp w2) w1) w"
  by pat_completeness auto
termination
  by (relation "measure rx_weight") (auto dest: recvM_weight)

text \<open>Storing received bytes in the buffer.\<close>

definition store :: "char list \<Rightarrow> nat \<Rightarrow> char list \<Rightarrow> char list" where
  "store buf ptr bs = take ptr buf @ bs @ drop (ptr + length bs) buf"

text \<open>The loop of \<open>socket_read_request\<close>; the result is the returned status and the buffer. It calls the
  platform's \<open>clean_request\<close>.\<close>

function read_loop :: "(bool \<Rightarrow> bool \<Rightarrow> (world, int \<times> char list) prog) \<Rightarrow> char list \<Rightarrow> nat \<Rightarrow> world \<Rightarrow> (int \<times> char list) res \<times> world" where
  "read_loop clean buf ptr w =
     bindM (recvM (BUFFER_SIZE - ptr)) (\<lambda>r w1. case r of
         Recv_Eintr \<Rightarrow> read_loop clean buf ptr w1
       | Recv_Error \<Rightarrow> clean False True w1
       | Got bytes \<Rightarrow>
           (let got_bytes = length bytes
            in if ptr = 0 \<and> got_bytes = 0 then clean False True w1
               else if got_bytes = 0 then (Ret (0, buf[ptr := NUL]), w1)
               else (let buf = store buf ptr bytes; ptr = ptr + got_bytes
                     in if BUFFER_SIZE \<le> ptr then
                          thenM (set_type_Request 1)
                          (bindM (getM DOS_PROTECTION) (\<lambda>dos.
                           if dos = 0 then thenM socket_drain_tcp (retM (- 2, buf))
                           else retM (- 2, buf))) w1
                        else
                          bindM (stopM (ut_get_line buf ptr)) (\<lambda>found w2.
                          if fst found \<noteq> 0 then (Ret (0, snd found), w2)
                          else read_loop clean (snd found) ptr w2) w1))) w"
  by pat_completeness auto
termination
  by (relation "measure (\<lambda>(_, _, _, w). rx_weight w)") (auto dest: recvM_weight)

declare socket_drain_tcp.simps [simp del] read_loop.simps [simp del]

definition socket_read_request :: "(world, int \<times> char list) prog" where
  "socket_read_request =
     bindM (callocM Blk_Buf) (\<lambda>ok.
     if \<not> ok then clean_request False False
     else read_loop clean_request (replicate (BUFFER_SIZE + 1) NUL) 0)"

subsection \<open>Sending\<close>

definition socket_send_message :: "string \<Rightarrow> (world, int) prog" where
  "socket_send_message message_string =
     bindM (sendM message_string) (\<lambda>ret. if ret < 0 then retM ret else retM 0)"

text \<open>\<open>buf\<close> is the request and \<open>path\<close> the path; both blocks are live.\<close>

definition socket_send_error_to_client :: "string \<Rightarrow> string \<Rightarrow> (world, 'a) prog" where
  "socket_send_error_to_client path buf =
     bindM (getM (\<lambda>w. port_int (configs (w_args w)))) (\<lambda>port.
     bindM (protocol_response Blk_Msg (chr (CHR ''3'')) buf path ''localhost'' port) (\<lambda>(err, m).
     if err \<noteq> 0 then clean_request True True
     else thenM (socket_send_message (the m))
         (thenM (whenM (m \<noteq> None) (freeM Blk_Msg))
         (clean_request True True))))"

definition too_long_text :: "int \<Rightarrow> string" where
  "too_long_text port =
     [NL] @ ''3requested path to long'' @ [TAB] @ ''error.host'' @ [TAB] @ show_int port @ [NL]"

definition socket_send_too_long_error_to_client :: "bool \<Rightarrow> (world, 'a) prog" where
  "socket_send_too_long_error_to_client path =
     bindM (getM (\<lambda>w. port_int (configs (w_args w)))) (\<lambda>port.
     bindM (stopM (sprintf_to 50 (too_long_text port))) (\<lambda>ret.
     thenM (if 0 \<le> ret then thenM (socket_send_message (too_long_text port)) (retM ()) else retM ())
     (clean_request path True)))"

section \<open>The heap of a request\<close>

text \<open>\<open>holds B w\<close>: of the handler's blocks exactly those in \<open>B\<close> are allocated, once each.\<close>

definition owns :: "blk set \<Rightarrow> blk list \<Rightarrow> bool" where
  "owns B l \<longleftrightarrow> distinct (filter (\<lambda>b. b \<in> core) l) \<and> set (filter (\<lambda>b. b \<in> core) l) = B"

abbreviation holds :: "blk set \<Rightarrow> world \<Rightarrow> bool" where
  "holds B w \<equiv> owns B (live w)"

lemma holds_frame: "frame w w' \<Longrightarrow> holds B w \<Longrightarrow> holds B w'"
  by (simp add: owns_def frame_def core_live_def)

lemma owns_mem: "owns B l \<Longrightarrow> b \<in> B \<Longrightarrow> b \<in> set l"
  by (auto simp: owns_def)

lemma owns_alloc: "owns B l \<Longrightarrow> b \<in> core \<Longrightarrow> b \<notin> B \<Longrightarrow> owns (insert b B) (b # l)"
  by (auto simp: owns_def)

lemma owns_other [simp]: "b \<notin> core \<Longrightarrow> owns B (b # l) = owns B l"
  "b \<notin> core \<Longrightarrow> owns B (remove1 b l) = owns B l"
  by (simp_all add: owns_def filter_remove1_other)

lemma owns_free: "owns B l \<Longrightarrow> b \<in> B \<Longrightarrow> owns (B - {b}) (remove1 b l)"
  by (simp add: owns_def filter_remove1)

lemma owns_free_list:
  "owns (set bs) l \<Longrightarrow> distinct bs \<Longrightarrow> owns {} (foldl (\<lambda>l b. remove1 b l) l bs)"
proof (induction bs arbitrary: l)
  case (Cons b bs)
  have "owns (set (b # bs) - {b}) (remove1 b l)"
    using Cons.prems(1) by (rule owns_free) simp
  moreover have "set (b # bs) - {b} = set bs" using Cons.prems(2) by auto
  ultimately show ?case using Cons.IH Cons.prems(2) by simp
qed simp

text \<open>How a request that cleans up ends: the handler's own blocks are freed, those that its helpers
  left behind are not, and the descriptor is closed once more if \<open>type_Request\<close> says so.\<close>

definition cleaned :: "world \<Rightarrow> 'a res \<Rightarrow> world \<Rightarrow> bool" where
  "cleaned w r w' \<longleftrightarrow>
     r = (if mode_concurrency (configs (w_args w)) = M_THREAD then Thread_Exit else Exit 0) \<and>
     holds {} w' \<and> others w' = others w \<and> obstacles w' = obstacles w \<and>
     closes w' = (if type_Request (w_args w) \<noteq> 0 then Suc (closes w) else closes w) \<and>
     w_args w' = w_args w \<and> out w' = out w \<and> plog w' = plog w \<and> p_mutex w' = p_mutex w \<and>
     file_open w' = file_open w \<and> file_lock w' = file_lock w"

lemma clean_request_cleaned:
  assumes "holds B w"
    and "B = {Blk_Ip, Blk_Args} \<union> (if path then {Blk_Path} else {}) \<union> (if buf then {Blk_Buf} else {})"
  shows "wp (clean_request path buf) (cleaned w) w"
proof -
  define bs where "bs = (if path then [Blk_Path] else []) @ (if buf then [Blk_Buf] else []) @
    [Blk_Ip, Blk_Args]"
  have "set bs = B" "distinct bs" using assms(2) by (auto simp: bs_def)
  then have "owns {} (foldl (\<lambda>l b. remove1 b l) (live w) bs)"
    using assms(1) owns_free_list by blast
  moreover have "\<And>b. b \<in> set bs \<Longrightarrow> b \<in> set (live w)"
    using assms(1) \<open>set bs = B\<close> owns_mem by blast
  ultimately show ?thesis
    unfolding bs_def clean_request_def
    by (cases path; cases buf) (simp_all add: wp_rules in_set_remove1 cleaned_def in_core)
qed

section \<open>Receiving\<close>

lemma rx_args_swap [simp]: "w\<lparr>rx := r, w_args := a\<rparr> = w\<lparr>w_args := a, rx := r\<rparr>"
  by simp

lemma rx_upd_id [simp]: "w\<lparr>rx := rx w\<rparr> = w"
  by simp

lemma recvM_total:
  obtains (got) r rx' where "recvM n w = (Ret r, w\<lparr>rx := rx'\<rparr>)" and "\<And>bs. r = Got bs \<Longrightarrow> length bs \<le> n"
  | (silent) "recvM n w = (Blocked, w)" and "Client_Silent \<in> obstacles w"
proof -
  have "(\<exists>r. recvM n w = (Ret r, w\<lparr>rx := rx (snd (recvM n w))\<rparr>) \<and> (\<forall>bs. r = Got bs \<longrightarrow> length bs \<le> n)) \<or>
    recvM n w = (Blocked, w) \<and> Client_Silent \<in> obstacles w"
    by (simp add: recvM_def split: list.split rx_event.split)
  then show ?thesis using that by blast
qed

lemma loops_blocked:
  "recvM BUFFER_SIZE w = (Blocked, w1) \<Longrightarrow> socket_drain_tcp w = (Blocked, w1)"
  "recvM (BUFFER_SIZE - ptr) w = (Blocked, w1) \<Longrightarrow> read_loop clean buf ptr w = (Blocked, w1)"
  by (subst socket_drain_tcp.simps, simp add: bindM_def, subst read_loop.simps, simp add: bindM_def)

lemma drain_step:
  assumes "recvM BUFFER_SIZE w = (Ret r, w1)"
  shows "socket_drain_tcp w = (case r of
      Recv_Eintr \<Rightarrow> socket_drain_tcp w1
    | Recv_Error \<Rightarrow> (Ret (- 1), w1)
    | Got bs \<Rightarrow>
        if bs = [] then (Ret 0, w1)
        else if NL \<notin> set bs then socket_drain_tcp w1
        else if hd bs = NL then (UB Out_Of_Bounds, w1)
        else (Ret 0, w1))"
proof -
  have line: "ut_get_line bs (length bs) =
      (if NL \<notin> set bs then Ret (0, bs) else if hd bs = NL then UB Out_Of_Bounds
       else Ret (1, bs[length (takeWhile (\<lambda>x. x \<noteq> NL) bs) - 1 := NUL]))" if "bs \<noteq> []" for bs
    using that by (cases bs) (auto simp: ut_get_line_def memchr_eq_takeWhile)
  show ?thesis
    using assms by (subst socket_drain_tcp.simps) (simp add: bindM_def line split: recv_res.split)
qed

definition drained :: "world \<Rightarrow> int res \<Rightarrow> world \<Rightarrow> bool" where
  "drained w r w' \<longleftrightarrow> (\<exists>rx'. w' = w\<lparr>rx := rx'\<rparr>) \<and>
     (r = Ret 0 \<or> r = Ret (- 1) \<or> r = UB Out_Of_Bounds \<or> r = Blocked \<and> Client_Silent \<in> obstacles w)"

lemma drained_rx [simp]: "drained (w\<lparr>rx := rx'\<rparr>) = drained w"
  by (intro ext) (simp add: drained_def)

lemma drain_ends: "wp socket_drain_tcp (drained w) w"
proof (induction w rule: measure_induct_rule [of rx_weight])
  case (less w)
  show ?case
  proof (cases rule: recvM_total [of BUFFER_SIZE w])
    case (got r rx')
    note r = got(1)
    show ?thesis
    proof (cases "r = Recv_Eintr \<or> (\<exists>bs. r = Got bs \<and> bs \<noteq> [] \<and> NL \<notin> set bs)")
      case True
      then have "rx_weight (w\<lparr>rx := rx'\<rparr>) < rx_weight w" using r recvM_weight by auto
      from less [OF this] have "wp socket_drain_tcp (drained w) (w\<lparr>rx := rx'\<rparr>)" by simp
      moreover have "socket_drain_tcp w = socket_drain_tcp (w\<lparr>rx := rx'\<rparr>)"
        using True drain_step [OF r] by auto
      ultimately show ?thesis by (simp add: wp_def)
    next
      case False
      then show ?thesis using drain_step [OF r] by (auto simp: wp_def drained_def split: recv_res.splits)
    qed
  next
    case silent
    then show ?thesis
      by (auto simp: wp_def drained_def loops_blocked(1) intro: exI [of _ "rx w"])
  qed
qed

lemma read_step:
  assumes "recvM (BUFFER_SIZE - ptr) w = (Ret r, w1)"
  shows "read_loop clean buf ptr w = (case r of
      Recv_Eintr \<Rightarrow> read_loop clean buf ptr w1
    | Recv_Error \<Rightarrow> clean False True w1
    | Got bs \<Rightarrow>
        if bs = [] then (if ptr = 0 then clean False True w1 else (Ret (0, buf[ptr := NUL]), w1))
        else if BUFFER_SIZE \<le> ptr + length bs then
          (let w2 = w1\<lparr>w_args := (w_args w1)\<lparr>type_Request := 1\<rparr>\<rparr>
           in if DOS_PROTECTION w1 = 0 then thenM socket_drain_tcp (retM (- 2, store buf ptr bs)) w2
              else (Ret (- 2, store buf ptr bs), w2))
        else (case ut_get_line (store buf ptr bs) (ptr + length bs) of
            Ret (found, b) \<Rightarrow> if found \<noteq> 0 then (Ret (0, b), w1) else read_loop clean b (ptr + length bs) w1
          | UB e \<Rightarrow> (UB e, w1)
          | _ \<Rightarrow> (UB Out_Of_Bounds, w1)))"
proof -
  have line: "ut_get_line b n = UB Out_Of_Bounds \<or> (\<exists>x y. ut_get_line b n = Ret (x, y))" for b n
    by (auto simp: ut_get_line_def split: option.split nat.split)
  show ?thesis
    using assms line [of "store buf ptr (case r of Got bs \<Rightarrow> bs | _ \<Rightarrow> [])" "ptr + length (case r of Got bs \<Rightarrow> bs | _ \<Rightarrow> [])"]
    by (subst read_loop.simps)
      (auto simp: bindM_def thenM_def set_type_Request_def Let_def split: recv_res.split)
qed

subsection \<open>How reading ends\<close>

text \<open>The buffer always ends in a NUL, whatever was received.\<close>

definition good_buf :: "char list \<Rightarrow> bool" where
  "good_buf b \<longleftrightarrow> length b = BUFFER_SIZE + 1 \<and> b ! BUFFER_SIZE = NUL"

lemma good_buf_store:
  assumes "good_buf b" and "ptr + length bs \<le> BUFFER_SIZE"
  shows "good_buf (store b ptr bs)"
proof -
  have n: "length (take ptr b @ bs) = ptr + length bs"
    using assms by (simp add: good_buf_def)
  have "store b ptr bs ! BUFFER_SIZE = drop (ptr + length bs) b ! (BUFFER_SIZE - (ptr + length bs))"
    unfolding store_def append_assoc [symmetric] using assms(2) n by (simp only: nth_append) simp
  also have "\<dots> = b ! BUFFER_SIZE"
    using assms by (subst nth_drop) (auto simp: good_buf_def)
  finally have "store b ptr bs ! BUFFER_SIZE = b ! BUFFER_SIZE" .
  moreover have "length (store b ptr bs) = length b"
    using assms by (simp add: good_buf_def store_def)
  ultimately show ?thesis using assms by (simp add: good_buf_def)
qed

lemma good_buf_update: "good_buf b \<Longrightarrow> good_buf (b[i := NUL])"
  by (cases "i = BUFFER_SIZE") (simp_all add: good_buf_def)

lemma good_buf_line: "good_buf b \<Longrightarrow> ut_get_line b n = Ret (f, b') \<Longrightarrow> good_buf b'"
  by (auto simp: ut_get_line_def good_buf_update split: option.splits nat.splits)

lemma good_buf_cstr:
  assumes "good_buf b"
  shows "length (cstr b) \<le> BUFFER_SIZE"
proof (rule ccontr)
  assume "\<not> length (cstr b) \<le> BUFFER_SIZE"
  then have "BUFFER_SIZE < length (cstr b)" by simp
  then have "cstr b ! BUFFER_SIZE \<in> set (cstr b)" by (rule nth_mem)
  moreover have "cstr b ! BUFFER_SIZE = b ! BUFFER_SIZE"
    using \<open>BUFFER_SIZE < length (cstr b)\<close> by (simp add: cstr_def takeWhile_nth)
  ultimately show False using assms cstr_nul_free [of b] by (simp add: good_buf_def nul_free_def)
qed

definition read_ends :: "world \<Rightarrow> (int \<times> char list) res \<Rightarrow> world \<Rightarrow> bool" where
  "read_ends w r w' \<longleftrightarrow>
     (\<exists>b rx'. good_buf b \<and>
        (r = Ret (0, b) \<and> w' = w\<lparr>rx := rx'\<rparr> \<or>
         r = Ret (- 2, b) \<and> w' = w\<lparr>w_args := (w_args w)\<lparr>type_Request := 1\<rparr>, rx := rx'\<rparr>)) \<or>
     cleaned w r w' \<or> r = UB Out_Of_Bounds \<or>
     r = Blocked \<and> Client_Silent \<in> obstacles w \<and> (\<exists>a rx'. w' = w\<lparr>w_args := a, rx := rx'\<rparr>)"

lemma read_ends_rx [simp]: "read_ends (w\<lparr>rx := rx'\<rparr>) = read_ends w"
  by (intro ext) (simp add: read_ends_def cleaned_def)

lemma read_loop_ends:
  assumes "holds {Blk_Ip, Blk_Args, Blk_Buf} w" and "good_buf buf" and "ptr < BUFFER_SIZE"
  shows "wp (read_loop clean_request buf ptr) (read_ends w) w"
  using assms
proof (induction w arbitrary: buf ptr rule: measure_induct_rule [of rx_weight])
  case (less w)
  have "w = w\<lparr>w_args := w_args w, rx := rx w\<rparr>" by simp
  then have silent_ends: "read_ends w Blocked w" if "Client_Silent \<in> obstacles w"
    using that unfolding read_ends_def by blast
  show ?case
  proof (cases rule: recvM_total [of "BUFFER_SIZE - ptr" w])
    case silent
    then show ?thesis using silent_ends by (simp add: wp_def loops_blocked(2))
  next
    case (got r rx')
    note r = got(1) and len = got(2)
    let ?w1 = "w\<lparr>rx := rx'\<rparr>"
    note step = read_step [OF r, of clean_request buf]
    have clean: "wp (clean_request False True) (read_ends w) ?w1"
      by (rule wp_mono [OF clean_request_cleaned [where B = "{Blk_Ip, Blk_Args, Blk_Buf}"]])
        (use less.prems in \<open>auto simp: read_ends_def cleaned_def\<close>)
    have again: "wp (read_loop clean_request b n) (read_ends w) ?w1"
      if "rx_weight ?w1 < rx_weight w" "good_buf b" "n < BUFFER_SIZE" for b n
      using less.IH [OF that(1) _ that(2,3)] less.prems(1) by simp
    show ?thesis
    proof (cases r)
      case Recv_Eintr
      then show ?thesis
        using step again r recvM_weight(2) less.prems by (simp add: wp_def)
    next
      case Recv_Error
      then show ?thesis using step clean by (simp add: wp_def)
    next
      case (Got bs)
      consider "bs = []" | "bs \<noteq> []" "BUFFER_SIZE \<le> ptr + length bs"
        | "bs \<noteq> []" "ptr + length bs < BUFFER_SIZE" by linarith
      then show ?thesis
      proof cases
        case 1
        then show ?thesis
          using step Got clean good_buf_update less.prems(2) by (auto simp: wp_def read_ends_def)
      next
        case 2
        let ?b = "store buf ptr bs"
        let ?w2 = "?w1\<lparr>w_args := (w_args w)\<lparr>type_Request := 1\<rparr>\<rparr>"
        have "good_buf ?b"
          using less.prems(2,3) len [OF Got] by (intro good_buf_store) auto
        moreover have "wp (thenM socket_drain_tcp (retM (- 2, ?b))) (read_ends w) ?w2"
          unfolding thenM_def
          by (rule wp_seqI [OF drain_ends])
            (use \<open>good_buf ?b\<close> in \<open>auto simp: drained_def read_ends_def intro!: exI [of _ ?b]\<close>)
        ultimately show ?thesis
          using step Got 2 by (auto simp: wp_def read_ends_def Let_def)
      next
        case 3
        have "good_buf (store buf ptr bs)" using less.prems(2) 3 by (intro good_buf_store) auto
        note line = good_buf_line [OF this]
        have w: "rx_weight ?w1 < rx_weight w" using r Got 3 recvM_weight(1) by blast
        show ?thesis
        proof (cases "ut_get_line (store buf ptr bs) (ptr + length bs)")
          case (Ret x)
          obtain found b where x: "x = (found, b)" by (cases x)
          with Ret line have "good_buf b" by blast
          then show ?thesis
            using step Got 3 Ret x again [OF w]
            by (cases "found = 0")
              (auto simp: wp_def read_ends_def dest: ut_get_line_code intro: exI [of _ b])
        qed (use step Got 3 in \<open>auto simp: wp_def read_ends_def ut_get_line_def split: option.splits nat.splits\<close>)
      qed
    qed
  qed
qed

subsection \<open>Which selector is read\<close>

text \<open>The selector in a stream of bytes: what is in front of the first newline and one more byte,
  or everything when there is no newline.\<close>

definition request_of :: "string \<Rightarrow> string res" where
  "request_of bytes =
     (case memchr bytes NL (length bytes) of
        None \<Rightarrow> Ret (cstr bytes)
      | Some 0 \<Rightarrow> UB Out_Of_Bounds
      | Some (Suc p) \<Rightarrow> Ret (cstr (take p bytes)))"

text \<open>The segments that arrive, with signals in between.\<close>

fun segment :: "rx_event \<Rightarrow> bool" where
  "segment (Rx_Data bs) = (bs \<noteq> [])"
| "segment Rx_Intr = True"
| "segment Rx_Err = False"

fun payload :: "rx_event list \<Rightarrow> string" where
  "payload [] = []"
| "payload (Rx_Data bs # es) = bs @ payload es"
| "payload (e # es) = payload es"

lemma memchr_prefix:
  "c \<in> set xs \<Longrightarrow> memchr (xs @ ys) c (length xs + n) = memchr xs c (length xs)"
  by (simp add: memchr_eq_takeWhile takeWhile_append1)

lemma request_of_none: "NL \<notin> set b \<Longrightarrow> request_of b = Ret (cstr b)"
  by (simp add: request_of_def memchr_None_iff [THEN iffD2])

lemma cstr_NUL_end: "cstr (b @ NUL # c) = cstr b"
  by (induction b) (auto simp: cstr_def)

lemma cstr_cut: "p < length b \<Longrightarrow> cstr (b[p := NUL]) = cstr (take p b)"
  by (simp add: upd_conv_take_nth_drop cstr_NUL_end)

lemma cstr_padded: "cstr (b @ replicate n NUL) = cstr b"
  by (rule cstr_append_zeros)

lemma store_padded:
  "length pre + length bs \<le> n \<Longrightarrow>
   store (pre @ replicate (n - length pre) NUL) (length pre) bs =
     (pre @ bs) @ replicate (n - length (pre @ bs)) NUL"
  by (simp add: store_def)

lemma line_padded:
  assumes "NL \<notin> set pre" and "bs \<noteq> []"
  shows "case ut_get_line ((pre @ bs) @ replicate n NUL) (length (pre @ bs)) of
      Ret (f, b) \<Rightarrow>
        if f = 0 then NL \<notin> set bs \<and> b = (pre @ bs) @ replicate n NUL
        else request_of (pre @ bs @ rest) = Ret (cstr b)
    | UB e \<Rightarrow> request_of (pre @ bs @ rest) = UB e
    | _ \<Rightarrow> False"
proof (cases "NL \<in> set bs")
  case False
  then have "NL \<notin> set (take (length (pre @ bs)) ((pre @ bs) @ replicate n NUL))"
    using assms by simp
  note none = ut_get_line_none [OF this]
  show ?thesis using False by (simp only: none res.case prod.case) simp
next
  case True
  then have nl: "NL \<in> set (pre @ bs)" by simp
  obtain i where i: "memchr (pre @ bs) NL (length (pre @ bs)) = Some i"
    using nl memchr_None_iff [of "pre @ bs" NL "length (pre @ bs)"] by fastforce
  then have len: "i < length (pre @ bs)" by (simp add: memchr_Some_iff)
  have 1: "memchr ((pre @ bs) @ replicate n NUL) NL (length (pre @ bs)) = Some i"
    using memchr_prefix [OF nl, of "replicate n NUL" 0] i by simp
  have 2: "memchr ((pre @ bs) @ rest) NL (length ((pre @ bs) @ rest)) = Some i"
    using memchr_prefix [OF nl, of rest "length rest"] i by (simp only: length_append)
  show ?thesis
  proof (cases i)
    case 0
    then show ?thesis using 1 2 by (simp add: ut_get_line_def request_of_def)
  next
    case (Suc p)
    then have "cstr (((pre @ bs) @ replicate n NUL)[p := NUL]) = cstr (take p ((pre @ bs) @ rest))"
      using len by (subst cstr_cut) auto
    then show ?thesis using 1 2 Suc by (simp add: ut_get_line_def request_of_def)
  qed
qed

text \<open>The outcome of reading the stream \<open>bytes\<close>.\<close>

definition reads :: "string \<Rightarrow> world \<Rightarrow> (int \<times> char list) res \<Rightarrow> world \<Rightarrow> bool" where
  "reads bytes w r w' \<longleftrightarrow> (\<exists>rx'. w' = w\<lparr>rx := rx'\<rparr>) \<and>
     (case r of Ret (n, b) \<Rightarrow> n = 0 \<and> request_of bytes = Ret (cstr b)
      | UB e \<Rightarrow> request_of bytes = UB e | _ \<Rightarrow> False)"

lemma reads_rx [simp]: "reads bytes (w\<lparr>rx := rx'\<rparr>) = reads bytes w"
  by (intro ext) (simp add: reads_def)

lemma read_loop_segments:
  assumes "sock_usable w" and "list_all segment (rx w)" and "NL \<notin> set pre"
    and "length (pre @ payload (rx w)) < BUFFER_SIZE" and "pre @ payload (rx w) \<noteq> []"
    and "Client_Silent \<in> obstacles w \<Longrightarrow> NL \<in> set (pre @ payload (rx w))"
  shows "wp (read_loop clean (pre @ replicate (BUFFER_SIZE + 1 - length pre) NUL) (length pre))
    (reads (pre @ payload (rx w)) w) w"
  using assms
proof (induction "rx w" arbitrary: pre w)
  case Nil
  then have "Client_Silent \<notin> obstacles w" by auto
  with Nil have r: "recvM (BUFFER_SIZE - length pre) w = (Ret (Got []), w)" by (simp add: recvM_def)
  have "pre \<noteq> []" using Nil by auto
  then have "wp (read_loop clean (pre @ replicate (BUFFER_SIZE + 1 - length pre) NUL) (length pre)) (\<lambda>r w'.
      r = Ret (0, (pre @ replicate (BUFFER_SIZE + 1 - length pre) NUL)[length pre := NUL]) \<and> w' = w) w"
    using read_step [OF r, of clean] by (simp add: wp_def)
  moreover have "(pre @ replicate (BUFFER_SIZE + 1 - length pre) NUL)[length pre := NUL]
      = pre @ replicate (BUFFER_SIZE + 1 - length pre) NUL"
    using Nil.prems(4) by (simp add: list_update_append replicate_Suc [symmetric] Suc_diff_le del: replicate_Suc)
      (cases "BUFFER_SIZE + 1 - length pre", auto)
  ultimately show ?case
    using Nil request_of_none [of pre]
    by (auto simp: cstr_padded reads_def intro!: exI [of _ "rx w"] elim!: wp_mono)
next
  case (Cons e es)
  show ?case
  proof (cases e)
    case Rx_Intr
    then have r: "recvM (BUFFER_SIZE - length pre) w = (Ret Recv_Eintr, w\<lparr>rx := es\<rparr>)"
      using Cons.prems(1) Cons.hyps(2) [symmetric] by (simp add: recvM_def)
    have pl: "payload (rx w) = payload es" using Cons.hyps(2) [symmetric] Rx_Intr by simp
    have "sock_usable (w\<lparr>rx := es\<rparr>)" using Cons.prems(1) by (simp add: sock_usable_def)
    then show ?thesis
      using Cons.hyps(1) [of "w\<lparr>rx := es\<rparr>" pre] Cons.prems Cons.hyps(2) [symmetric] pl read_step [OF r, of clean]
      by (simp add: wp_def)
  next
    case Rx_Err
    then show ?thesis using Cons.prems(2) Cons.hyps(2) [symmetric] by simp
  next
    case (Rx_Data bs)
    then have pl: "payload (rx w) = bs @ payload es" and ne: "bs \<noteq> []"
      using Cons.hyps(2) [symmetric] Cons.prems(2) by simp_all
    have len: "length pre + length bs < BUFFER_SIZE" using Cons.prems(4) pl by simp
    then have "length bs \<le> BUFFER_SIZE - length pre" by linarith
    then have r: "recvM (BUFFER_SIZE - length pre) w = (Ret (Got bs), w\<lparr>rx := es\<rparr>)"
      using Cons.prems(1) Cons.hyps(2) [symmetric] Rx_Data by (simp add: recvM_def)
    have u: "sock_usable (w\<lparr>rx := es\<rparr>)" using Cons.prems(1) by (simp add: sock_usable_def)
    let ?k = "BUFFER_SIZE + 1 - length (pre @ bs)"
    define b0 b1 where "b0 = pre @ replicate (BUFFER_SIZE + 1 - length pre) NUL"
      and "b1 = (pre @ bs) @ replicate ?k NUL"
    have "store b0 (length pre) bs = b1"
      unfolding b0_def b1_def using len by (intro store_padded) simp
    with read_step [OF r, of clean b0] ne len
    have step: "read_loop clean b0 (length pre) w =
      (case ut_get_line b1 (length pre + length bs) of
            Ret (found, b) \<Rightarrow>
              if found \<noteq> 0 then (Ret (0, b), w\<lparr>rx := es\<rparr>)
              else read_loop clean b (length pre + length bs) (w\<lparr>rx := es\<rparr>)
          | UB e \<Rightarrow> (UB e, w\<lparr>rx := es\<rparr>)
          | _ \<Rightarrow> (UB Out_Of_Bounds, w\<lparr>rx := es\<rparr>))"
      by simp
    have line: "case ut_get_line b1 (length pre + length bs) of
      Ret (f, b) \<Rightarrow>
        if f = 0 then NL \<notin> set bs \<and> b = b1
        else request_of (pre @ bs @ payload es) = Ret (cstr b)
    | UB e \<Rightarrow> request_of (pre @ bs @ payload es) = UB e
    | _ \<Rightarrow> False"
      using line_padded [OF Cons.prems(3) ne, of ?k "payload es", folded b1_def] by simp
    have "wp (read_loop clean b0 (length pre)) (reads (pre @ payload (rx w)) w) w"
    proof (cases "ut_get_line b1 (length pre + length bs)")
      case (Ret x)
      obtain f b where x: "x = (f, b)" by (cases x)
      show ?thesis
      proof (cases "f = 0")
        case True
        with line Ret x have nl: "NL \<notin> set bs" and b: "b = b1" by simp_all
        have "read_loop clean b0 (length pre) w = read_loop clean b1 (length pre + length bs) (w\<lparr>rx := es\<rparr>)"
          using step Ret x True b by simp
        moreover have "wp (read_loop clean b1 (length (pre @ bs))) (reads ((pre @ bs) @ payload es) w) (w\<lparr>rx := es\<rparr>)"
          using Cons.hyps(1) [of "w\<lparr>rx := es\<rparr>" "pre @ bs"] u Cons.prems Cons.hyps(2) [symmetric] pl nl ne
          unfolding b1_def by simp
        ultimately show ?thesis using pl by (simp add: wp_def)
      next
        case False
        then show ?thesis using step Ret x line pl by (auto simp: wp_def reads_def)
      qed
    qed (use step line pl in \<open>auto simp: wp_def reads_def\<close>)
    then show ?thesis unfolding b0_def .
  qed
qed

lemma request_of_line:
  "NL \<notin> set sel \<Longrightarrow> c \<noteq> NL \<Longrightarrow> request_of (sel @ c # NL # rest) = Ret (cstr sel)"
proof -
  assume "NL \<notin> set sel" "c \<noteq> NL"
  then have "memchr (sel @ c # NL # rest) NL (length (sel @ c # NL # rest)) = Some (Suc (length sel))"
    by (auto simp: memchr_Some_iff nth_append)
  then show ?thesis by (simp only: request_of_def) simp
qed

lemma request_of_newline: "request_of (NL # rest) = UB Out_Of_Bounds"
  by (simp add: request_of_def)

lemma read_request_run:
  assumes "oom w = []"
  shows "socket_read_request w =
    read_loop clean_request (replicate (BUFFER_SIZE + 1) NUL) 0 (w\<lparr>live := Blk_Buf # live w\<rparr>)"
  using assms by (simp add: socket_read_request_def bindM_def callocM_def)

lemma read_request_segments:
  assumes "oom w = []" and "sock_usable w" and "list_all segment (rx w)"
    and "payload (rx w) \<noteq> []" and "length (payload (rx w)) < BUFFER_SIZE"
    and "Client_Silent \<in> obstacles w \<Longrightarrow> NL \<in> set (payload (rx w))"
  shows "wp socket_read_request (reads (payload (rx w)) (w\<lparr>live := Blk_Buf # live w\<rparr>)) w"
proof -
  have "sock_usable (w\<lparr>live := Blk_Buf # live w\<rparr>)" using assms(2) by (simp add: sock_usable_def)
  then show ?thesis
    using assms read_loop_segments [of "w\<lparr>live := Blk_Buf # live w\<rparr>" "[]"]
    by (simp add: wp_def read_request_run [OF assms(1)])
qed

lemma good_buf_zero: "good_buf (replicate (BUFFER_SIZE + 1) NUL)"
  by (simp add: good_buf_def nth_replicate del: replicate_Suc)

lemma read_request_ends:
  assumes "holds {Blk_Ip, Blk_Args} w"
  shows "wp socket_read_request (\<lambda>r w'. cleaned w r w' \<or>
    (\<exists>m. read_ends (w\<lparr>live := Blk_Buf # live w, oom := m\<rparr>) r w')) w"
proof -
  define P where "P = (\<lambda>r w'. cleaned w r w' \<or>
    (\<exists>m. read_ends (w\<lparr>live := Blk_Buf # live w, oom := m\<rparr>) r w'))"
  have read: "wp (read_loop clean_request (replicate (BUFFER_SIZE + 1) NUL) 0) P (w\<lparr>live := Blk_Buf # live w, oom := m\<rparr>)" for m
  proof (rule wp_mono [OF read_loop_ends])
    have "owns (insert Blk_Buf {Blk_Ip, Blk_Args}) (Blk_Buf # live w)"
      using assms by (intro owns_alloc) (auto simp: core_def)
    then show "holds {Blk_Ip, Blk_Args, Blk_Buf} (w\<lparr>live := Blk_Buf # live w, oom := m\<rparr>)"
      by (simp add: insert_commute)
  qed (use good_buf_zero in \<open>auto simp: BUFFER_SIZE_def P_def\<close>)
  have clean: "wp (clean_request False False) P (w\<lparr>oom := m\<rparr>)" for m
    by (rule wp_mono [OF clean_request_cleaned [where B = "{Blk_Ip, Blk_Args}"]])
      (use assms in \<open>auto simp: cleaned_def P_def\<close>)
  have "w\<lparr>live := Blk_Buf # live w, oom := oom w\<rparr> = w\<lparr>live := Blk_Buf # live w\<rparr>" by simp
  with read [of "oom w"] have "wp (read_loop clean_request (replicate (BUFFER_SIZE + 1) NUL) 0) P (w\<lparr>live := Blk_Buf # live w\<rparr>)"
    by simp
  with read clean have "wp socket_read_request P w"
    unfolding socket_read_request_def wp_bindM wp_callocM
    by (cases "oom w") (simp_all del: replicate_Suc)
  then show ?thesis by (simp add: P_def)
qed

lemma read_request_full:
  assumes "oom w = []" and "sock_usable w" and "rx w = Rx_Data (take BUFFER_SIZE bytes) # rest"
    and "BUFFER_SIZE \<le> length bytes" and "DOS_PROTECTION w \<noteq> 0"
  shows "\<exists>b. socket_read_request w = (Ret (- 2, b),
    w\<lparr>live := Blk_Buf # live w, rx := rest, w_args := (w_args w)\<lparr>type_Request := 1\<rparr>\<rparr>)"
proof -
  let ?w = "w\<lparr>live := Blk_Buf # live w\<rparr>"
  have r: "recvM (BUFFER_SIZE - 0) ?w = (Ret (Got (take BUFFER_SIZE bytes)), ?w\<lparr>rx := rest\<rparr>)"
    using assms by (simp add: recvM_def sock_usable_def)
  have "take BUFFER_SIZE bytes \<noteq> []" using assms(4) by (auto simp: BUFFER_SIZE_def)
  moreover have "length (take BUFFER_SIZE bytes) = BUFFER_SIZE" using assms(4) by simp
  ultimately show ?thesis
    using read_step [OF r, of clean_request "replicate (BUFFER_SIZE + 1) NUL"] assms(5)
    by (simp add: read_request_run [OF assms(1)] Let_def del: replicate_Suc)
qed

section \<open>Sending\<close>

lemma wp_socket_send_message [wp_rules]:
  "wp (socket_send_message m) Q w =
     wp (sendM m) (seq_post (\<lambda>ret. if ret < 0 then retM ret else retM 0) Q) w"
  by (simp add: socket_send_message_def wp_bindM)

text \<open>\<open>socket_send_message\<close> keeps the contract of the listing's callback.\<close>

definition send_ready :: "world \<Rightarrow> bool" where
  "send_ready w \<longleftrightarrow> sock_usable w \<and> tx w = [] \<and> Client_Stalled \<notin> obstacles w"

lemma send_message_run:
  "send_ready w \<Longrightarrow> socket_send_message m w = (Ret 0, w\<lparr>out := out w @ m\<rparr>)"
  by (simp add: socket_send_message_def bindM_def sendM_def send_ready_def)

interpretation sender: line_sender socket_send_message send_ready
proof unfold_locales
  fix w m s l
  show "send_ready w \<Longrightarrow> socket_send_message m w = (Ret 0, w\<lparr>out := out w @ m\<rparr>)"
    by (rule send_message_run)
  show "send_ready (w\<lparr>out := s, live := l\<rparr>) = send_ready w"
    by (simp add: send_ready_def sock_usable_def)
  show "wp (socket_send_message m) (\<lambda>r w'. frame w w' \<and> live w' = live w \<and>
          ((\<exists>n. r = Ret n) \<or> net_stop w r)) w"
    by (simp add: wp_rules split: list.split tx_event.split)
qed

interpretation linux_list: lister socket_send_message send_ready "getGopherCode env" "item_code env" "code_leak env" for env
  by unfold_locales

interpretation win_list: lister socket_send_message send_ready
    "\<lambda>p. retM (win_getGopherCode p)" "\<lambda>p. Ret (win_getGopherCode p)" "\<lambda>_. []"
  by unfold_locales

lemma error_to_client_ends:
  assumes "holds {Blk_Ip, Blk_Args, Blk_Buf, Blk_Path} w"
    and "response_fits (chr (CHR ''3'')) (port_int (configs (w_args w)))"
  shows "wp (socket_send_error_to_client path buf)
    (\<lambda>r w'. net_stop w r \<or> (\<exists>o'. cleaned (w\<lparr>out := o'\<rparr>) r w')) w"
proof -
  let ?Q = "\<lambda>r w'. net_stop w r \<or> (\<exists>o'. cleaned (w\<lparr>out := o'\<rparr>) r w')"
  have clean: "wp (clean_request True True) ?Q v"
    if "holds {Blk_Ip, Blk_Args, Blk_Buf, Blk_Path} v" "w_args v = w_args w" "closes v = closes w"
      "plog v = plog w" "p_mutex v = p_mutex w" "file_open v = file_open w" "file_lock v = file_lock w"
      "others v = others w" "obstacles v = obstacles w"
    for v
    by (rule wp_mono [OF clean_request_cleaned [OF that(1)]])
      (use that in \<open>auto simp: cleaned_def\<close>)
  have chr3: "chr (CHR ''3'') \<noteq> - 1" by simp
  let ?line = "response_text (chr (CHR ''3'')) buf path ''localhost'' (port_int (configs (w_args w)))"
  have sent: "wp (thenM (socket_send_message ?line) (thenM (whenM True (freeM Blk_Msg)) (clean_request True True)))
      ?Q (w\<lparr>live := Blk_Msg # live w, oom := m\<rparr>)" for m
    using assms(1) by (auto simp: wp_rules in_core intro!: clean split: list.split tx_event.split)
  show ?thesis
    unfolding socket_send_error_to_client_def
    using assms(2) sent [of "oom w"] sent [of "tl (oom w)"] assms(1)
    by (auto simp: wp_bindM wp_getM wp_protocol_response chr3 wp_callocM in_core intro!: clean split: list.split)
qed

text \<open>The array of 50 characters is large enough for every port.\<close>

lemma too_long_fits:
  "sprintf_to 50 (too_long_text (port_int c)) = Ret (int (length (too_long_text (port_int c))))"
proof -
  have "- (2 ^ 31) \<le> port_int c" "port_int c < 2 ^ 31"
    using sint_range_size [of "port_number c"] by (simp_all add: port_int_def word_size)
  then have "length (show_int (port_int c)) \<le> 11"
    using length_show_int_iff [of "port_int c" 9] by (simp add: eval_nat_numeral)
  then show ?thesis by (simp add: sprintf_to_def too_long_text_def)
qed

lemma too_long_ends:
  assumes "holds {Blk_Ip, Blk_Args, Blk_Buf, Blk_Path} w"
  shows "wp (socket_send_too_long_error_to_client True)
    (\<lambda>r w'. net_stop w r \<or> (\<exists>o'. cleaned (w\<lparr>out := o'\<rparr>) r w')) w"
proof -
  note fits = too_long_fits
  let ?Q = "\<lambda>r w'. net_stop w r \<or> (\<exists>o'. cleaned (w\<lparr>out := o'\<rparr>) r w')"
  have clean: "wp (clean_request True True) ?Q v"
    if "holds {Blk_Ip, Blk_Args, Blk_Buf, Blk_Path} v" "w_args v = w_args w" "closes v = closes w"
      "plog v = plog w" "p_mutex v = p_mutex w" "file_open v = file_open w" "file_lock v = file_lock w"
      "others v = others w" "obstacles v = obstacles w"
    for v
    by (rule wp_mono [OF clean_request_cleaned [OF that(1)]])
      (use that in \<open>auto simp: cleaned_def\<close>)
  show ?thesis
    unfolding socket_send_too_long_error_to_client_def
    using assms by (auto simp: wp_rules fits intro!: clean split: list.split tx_event.split)
qed

section \<open>Properties\<close>

text \<open>Claim C16. However the client's bytes are cut into segments, and however often the calls are
  interrupted by signals, the reader returns the selector of the whole stream; only a newline at
  the very start makes it write in front of the buffer. A client that keeps the connection open
  and silent must have sent a newline: there is no time limit on \<open>recv\<close>.\<close>

theorem socket_read_request_segments:
  assumes "oom w = []" and "sock_usable w" and "list_all segment (rx w)"
    and "payload (rx w) \<noteq> []" and "length (payload (rx w)) < BUFFER_SIZE"
    and "Client_Silent \<in> obstacles w \<Longrightarrow> NL \<in> set (payload (rx w))"
  shows "(\<exists>b. fst (socket_read_request w) = Ret (0, b) \<and> request_of (payload (rx w)) = Ret (cstr b)) \<or>
    (fst (socket_read_request w) = UB Out_Of_Bounds \<and> request_of (payload (rx w)) = UB Out_Of_Bounds)"
proof -
  have "request_of s = UB e \<Longrightarrow> e = Out_Of_Bounds" for s e
    by (auto simp: request_of_def split: option.splits nat.splits)
  then show ?thesis
    using read_request_segments [OF assms]
    by (auto simp: wp_fst_snd reads_def split: res.splits prod.splits)
qed

definition client_world :: "rx_event list \<Rightarrow> world" where
  "client_world evs = \<lparr>w_args = \<lparr>fd = 5, configs = \<lparr>port_number = 70, mode_concurrency = M_THREAD,
       root_dir = ''/srv'', used_OPTARG = 0, reset_config = False, hostname = Host_Ip_Buffer\<rparr>,
       ip_client = ''10.0.0.2'', type_Request = 0\<rparr>,
     ip_buffer = ''10.0.0.1'', cwd = ''/srv/build'', DOS_PROTECTION = 0, rx = evs, tx = [], oom = [],
     out = [], closes = 0, live = [Blk_Ip, Blk_Args], file_open = False, file_lock = False,
     p_mutex = False, plog = [], obstacles = {}\<rparr>"

lemma client_world_simps [simp]:
  "oom (client_world evs) = []" "rx (client_world evs) = evs" "tx (client_world evs) = []"
  "sock_usable (client_world evs)" "send_ready (client_world evs)"
  "holds {Blk_Ip, Blk_Args} (client_world evs)" "DOS_PROTECTION (client_world evs) = 0"
  "out (client_world evs) = []" "closes (client_world evs) = 0" "p_mutex (client_world evs) = False"
  "cwd (client_world evs) = ''/srv/build''" "ip_buffer (client_world evs) = ''10.0.0.1''"
  "root_dir (configs (w_args (client_world evs))) = ''/srv''"
  "mode_concurrency (configs (w_args (client_world evs))) = M_THREAD"
  "port_number (configs (w_args (client_world evs))) = 70"
  "ip_client (w_args (client_world evs)) = ''10.0.0.2''"
  "hostname (configs (w_args (client_world evs))) = Host_Ip_Buffer"
  "type_Request (w_args (client_world evs)) = 0" "plog (client_world evs) = []"
  "file_open (client_world evs) = False" "file_lock (client_world evs) = False"
  "obstacles (client_world evs) = {}" "others (client_world evs) = []"
  by (simp_all add: client_world_def sock_usable_def send_ready_def owns_def core_def
      others_def)

theorem socket_read_request_segments_witness:
  "\<exists>w b. fst (socket_read_request w) = Ret (0, b) \<and> cstr b = ''/a''"
proof -
  let ?w = "client_world [Rx_Data ''/'', Rx_Intr, Rx_Data ''a'', Rx_Data [CR], Rx_Data [NL]]"
  have "payload (rx ?w) = ''/a'' @ CR # NL # []" by simp
  then have "request_of (payload (rx ?w)) = Ret ''/a''"
    using request_of_line [of "''/a''" CR "[]"] by simp
  then show ?thesis
    using socket_read_request_segments [of ?w] by (intro exI [of _ ?w]) (auto simp: BUFFER_SIZE_def)
qed

text \<open>A line is cut one byte in front of its newline, whatever that byte is: with CR LF
  the selector is exact, with a bare LF its last character is lost.\<close>

theorem socket_read_request_line:
  assumes "oom w = []" and "sock_usable w" and "list_all segment (rx w)"
    and "payload (rx w) = sel @ c # NL # rest" and "length (payload (rx w)) < BUFFER_SIZE"
    and "NL \<notin> set sel" and "nul_free sel" and "c \<noteq> NL"
  shows "\<exists>b. fst (socket_read_request w) = Ret (0, b) \<and> cstr b = sel"
  using read_request_segments [OF assms(1-3) _ assms(5)] request_of_line [OF assms(6,8)] assms(4,7)
  by (auto simp: wp_fst_snd reads_def split: res.splits prod.splits)

theorem socket_read_request_line_witness:
  "\<exists>w b. payload (rx w) = ''/index'' @ [NL] \<and> fst (socket_read_request w) = Ret (0, b) \<and>
     cstr b = ''/inde''"
proof -
  let ?w = "client_world [Rx_Data (''/index'' @ [NL])]"
  have "payload (rx ?w) = ''/inde'' @ CHR ''x'' # NL # []" by simp
  then show ?thesis
    using socket_read_request_line [of ?w "''/inde''" "CHR ''x''" "[]"]
    by (intro exI [of _ ?w]) (simp add: BUFFER_SIZE_def)
qed

text \<open>When the buffer is full the request counts as too long, even when a complete line
  is in it: the length is tested before the newline is looked for. With \<open>DOS_PROTECTION\<close> set the
  rest is left unread.\<close>

theorem socket_read_request_too_long:
  assumes "oom w = []" and "sock_usable w" and "rx w = Rx_Data (take BUFFER_SIZE bytes) # rest"
    and "BUFFER_SIZE \<le> length bytes" and "DOS_PROTECTION w \<noteq> 0"
  shows "\<exists>b. socket_read_request w = (Ret (- 2, b),
    w\<lparr>live := Blk_Buf # live w, rx := rest, w_args := (w_args w)\<lparr>type_Request := 1\<rparr>\<rparr>)"
  using assms by (rule read_request_full)

theorem socket_read_request_too_long_witness:
  "\<exists>w b rest. rx w = Rx_Data (''/a'' @ [CR, NL] @ replicate 2044 (CHR ''x'')) # rest \<and>
     fst (socket_read_request w) = Ret (- 2, b)"
proof -
  let ?bytes = "''/a'' @ [CR, NL] @ replicate 2044 (CHR ''x'')"
  let ?w = "(client_world [Rx_Data ?bytes])\<lparr>DOS_PROTECTION := 1\<rparr>"
  have len: "length ?bytes = BUFFER_SIZE" by (simp add: BUFFER_SIZE_def)
  then have take: "take BUFFER_SIZE ?bytes = ?bytes" by (simp only: take_all le_refl)
  have u: "sock_usable ?w" using client_world_simps(4) by (simp add: sock_usable_def)
  have "\<exists>b. socket_read_request ?w = (Ret (- 2, b),
    ?w\<lparr>live := Blk_Buf # live ?w, rx := [], w_args := (w_args ?w)\<lparr>type_Request := 1\<rparr>\<rparr>)"
    by (rule socket_read_request_too_long [where bytes = ?bytes])
      (use len u take in simp_all)
  then show ?thesis by (intro exI [of _ ?w]) auto
qed

text \<open>Claim C20. The listing of a directory: one menu line per entry that is not hidden, in the order
  of \<open>readdir\<close>, and nothing else is sent.\<close>

theorem print_directory_lists:
  assumes "os_opendir env path = Some entries" and "send_ready w" and "oom w = []"
    and "0 \<le> port" and "port < 65536"
    and "\<And>f. f \<in> set entries \<Longrightarrow> visible f \<Longrightarrow>
      \<exists>n. item_code env (path @ ''/'' @ f) = Ret n \<and> n \<noteq> - 1"
  shows "fst (print_directory (os_opendir env) (getGopherCode env) path socket_send_message port w) = Ret 0 \<and>
    out (snd (print_directory (os_opendir env) (getGopherCode env) path socket_send_message port w)) =
      out w @ listing (item_code env) path (ip_buffer w) port entries"
  using linux_list.print_entries_lists [OF assms(2-5), of entries env path] assms(1,6)
  by (auto simp: print_directory_def)

theorem print_directory_lists_witness:
  "\<exists>env w. out (snd (print_directory (os_opendir env) (getGopherCode env) ''/srv'' socket_send_message 70 w)) =
     ''0a'' @ [TAB] @ ''/srv/a'' @ [TAB] @ ''10.0.0.1'' @ [TAB] @ ''70'' @ [NL]"
proof -
  define env where "env = \<lparr>os_stat = \<lambda>_. None, os_realpath = \<lambda>_. None,
    os_opendir = \<lambda>_. Some [''.'', ''..'', ''a''],
    os_popen = \<lambda>_. Popen_Line (''text/plain'' @ [NL]), os_open = \<lambda>_. False,
    os_fstat = \<lambda>_. None, os_mmap = \<lambda>_. None, os_thread = True\<rparr>"
  have "strtok_r (''text'' @ CHR ''/'' # ''plain'' @ [NL]) ''/'' = (Some ''text'', ''plain'' @ [NL])"
    "fst (strtok_r (''plain'' @ [NL]) [NL]) = Some ''plain''"
    using strtok_mime [of "''text''" "''plain''"] by simp_all
  then have code: "item_code env p = Ret (chr (CHR ''0''))" for p
    by (simp add: item_code_def env_def strncmp_eq_def not_found_respond_def subtype_dict_def
        type_dict_def)
  have "out (snd (print_directory (os_opendir env) (getGopherCode env) ''/srv'' socket_send_message 70 (client_world []))) =
      listing (item_code env) ''/srv'' ''10.0.0.1'' 70 [''.'', ''..'', ''a'']"
    using print_directory_lists [of env "''/srv''" "[''.'', ''..'', ''a'']" "client_world []" 70] code
    by (simp add: env_def)
  also have "\<dots> = ''0a'' @ [TAB] @ ''/srv/a'' @ [TAB] @ ''10.0.0.1'' @ [TAB] @ ''70'' @ [NL]"
    using code by (simp add: listing_def visible_def menu_line_def entry_code_def show_int_def
        show_nat.simps digit_char_def char_of_def bit_Suc_0_iff)
  finally show ?thesis by blast
qed

end
