(* ===== verification/MemoryMapping.thy ===== *)
theory MemoryMapping
  imports Socket
begin

text \<open>
  \<open>linux/lib/memory_mapping/linux_memory_mapping.c\<close> and the two send functions of
  \<open>linux/lib/socket/linux_socket.c\<close>: a regular file is opened, locked, mapped, sent by a thread
  that the caller joins, and unlocked again.

  \<^item> The send thread runs while the caller waits for it, so it is a call here. When the thread
    cannot be created the code sends the file itself and then joins a thread that was never
    initialised.
  \<^item> The mapping is the list of the file's bytes. \<open>message_len\<close> is an \<open>int\<close>: a negative length is
    an enormous \<open>size_t\<close> for \<open>send\<close>, which then reads behind the mapping.
\<close>

section \<open>Definitions\<close>

definition fileSize :: "os \<Rightarrow> string \<Rightarrow> int" where
  "fileSize env path =
     (case os_fstat env path of None \<Rightarrow> - 1 | Some st_size \<Rightarrow> to_int32 (int st_size))"

definition linux_sendFile :: "string \<Rightarrow> int \<Rightarrow> (world, unit) prog" where
  "linux_sendFile message_to_send message_len =
     (if message_len < 0 then stopM (UB Out_Of_Bounds)
      else thenM (sendM (take (nat message_len) message_to_send)) (retM ()))"

text \<open>A \<open>send\<close> that succeeds consumes an event of the network or takes the whole buffer.\<close>

lemma sendM_progress:
  assumes "sendM bs w = (Ret n, w')" and "n \<noteq> - 1"
  shows "0 \<le> n \<and> n \<le> int (length bs) \<and> length (tx w') \<le> length (tx w) \<and> (length (tx w') < length (tx w) \<or> n = int (length bs))"
  using assms by (auto simp: sendM_def split: if_splits list.splits tx_event.splits)

text \<open>\<open>l_sendFile\<close> sends chunks of at most 512 bytes until the message is sent or a call fails. Its
  \<open>message_len\<close> and \<open>sendPosition\<close> are \<open>int\<close>s of 32 bits.\<close>

lemma sint_word_of_nat: "n < 2 ^ 31 \<Longrightarrow> sint (word_of_nat n :: 32 word) = int n"
  using to_int32_id [of "int n"] by (simp add: to_int32_def)

lemma unat_minus_int:
  assumes "0 \<le> n" and "n \<le> sint len"
  shows "unat (len - word_of_int n :: 32 word) = unat len - nat n"
proof -
  have "sint len < 2 ^ 31" using sint_range_size [of len] by (simp add: word_size)
  then have "uint len = sint len"
    using assms uint_sint [of len] by (simp add: take_bit_int_eq_self)
  then have "n \<le> uint len" using assms by simp
  moreover have "uint len < 2 ^ 32" using uint_lt2p [of len] by simp
  ultimately have "uint (word_of_int n :: 32 word) = n"
    using assms(1) by (simp add: uint_word_of_int_eq take_bit_int_eq_self)
  then have "uint (len - word_of_int n) = uint len - n"
    using \<open>n \<le> uint len\<close> by (simp add: uint_sub_if_size)
  then show ?thesis using assms(1) by (simp add: nat_diff_distrib flip: nat_uint_eq)
qed

function l_send_loop :: "string \<Rightarrow> 32 word \<Rightarrow> 32 word \<Rightarrow> world \<Rightarrow> unit res \<times> world" where
  "l_send_loop message_to_send sendPosition message_len w =
     (if 0 < sint message_len then
        (let chunkSize = (if sint message_len > 512 then 512 else message_len);
             buffer = take (nat (sint chunkSize)) (drop (nat (sint sendPosition)) message_to_send)
         in if sint sendPosition < 0 \<or> int (length message_to_send) < sint sendPosition + sint chunkSize
            then (UB Out_Of_Bounds, w)
            else bindM (sendM buffer) (\<lambda>chunkSize w1.
            if chunkSize = - 1 then (Ret (), w1)
            else l_send_loop message_to_send (sendPosition + word_of_int chunkSize)
                   (message_len - word_of_int chunkSize) w1) w)
      else (Ret (), w))"
  by pat_completeness auto

termination
proof (relation "measure (\<lambda>(_, _, len, w). length (tx w) + unat len)", goal_cases)
  case (2 msg pos len w chunk buffer n w1)
  then have n: "0 \<le> n" "n \<le> int (length buffer)" "length (tx w1) \<le> length (tx w)"
      "length (tx w1) < length (tx w) \<or> n = int (length buffer)"
    using sendM_progress [of buffer w n w1] by auto
  have len: "length buffer = nat (sint chunk)" "0 < sint chunk" "sint chunk \<le> sint len"
    using 2 by auto
  then have u: "unat (len - word_of_int n) = unat len - nat n"
    using n(1,2) by (intro unat_minus_int) auto
  have "0 < unat len" using 2(1) by (cases "unat len") (auto simp: unat_eq_0)
  with u n len show ?case by auto
qed simp

declare l_send_loop.simps [simp del]

definition l_sendFile :: "string \<Rightarrow> 32 word \<Rightarrow> (world, unit) prog" where
  "l_sendFile message_to_send message_len = l_send_loop message_to_send 0 message_len"

definition linux_memory_mapping :: "os \<Rightarrow> string \<Rightarrow> (world, int) prog" where
  "linux_memory_mapping env path =
     bindM (open_file env path) (\<lambda>ok.
     if \<not> ok then retM (- 1)
     else bindM (getM (\<lambda>w. mode_concurrency (configs (w_args w)))) (\<lambda>mode.
       thenM (if mode = M_PROCESS then lockf_lock else mutex_lock)
       (case os_fstat env path of
          None \<Rightarrow> thenM lockf_unlock (thenM close_file (retM (- 1)))
        | Some st_size \<Rightarrow>
            if st_size = 0 then retM 0
            else case os_mmap env path of
                None \<Rightarrow> thenM lockf_unlock (thenM close_file (retM (- 1)))
              | Some addr \<Rightarrow>
                  thenM (if os_thread env then linux_sendFile addr (fileSize env path)
                         else thenM (linux_sendFile addr (fileSize env path))
                                (stopM (UB Uninitialised)))
                  (thenM (if mode = M_PROCESS then lockf_unlock else mutex_unlock)
                  (thenM close_file
                  (thenM close_client
                  (retM (to_int32 (int st_size)))))))))"

section \<open>Lemmas\<close>

lemma wp_linux_sendFile [wp_rules]:
  "wp (linux_sendFile msg len) Q w =
     (if len < 0 then Q (UB Out_Of_Bounds) w
      else wp (sendM (take (nat len) msg)) (seq_post (\<lambda>_. retM ()) Q) w)"
  by (simp add: linux_sendFile_def wp_rules)

text \<open>How the transfer of a file can end. The handler's blocks, its arguments and the log are never
  touched; only the client's descriptor, the file and the locks change.\<close>

definition map_frame :: "world \<Rightarrow> world \<Rightarrow> bool" where
  "map_frame w w' \<longleftrightarrow> live w' = live w \<and> w_args w' = w_args w \<and> plog w' = plog w \<and>
     ip_buffer w' = ip_buffer w \<and> oom w' = oom w \<and> obstacles w' = obstacles w"

definition map_ends :: "world \<Rightarrow> int res \<Rightarrow> world \<Rightarrow> bool" where
  "map_ends w r w' \<longleftrightarrow> map_frame w w' \<and>
     (case r of
        Ret n \<Rightarrow> closes w' = closes w \<or> closes w' = Suc (closes w) \<and> file_open w' = False
      | Killed s \<Rightarrow> s = SIGPIPE \<and> No_Sigpipe \<notin> obstacles w
      | Blocked \<Rightarrow> Client_Stalled \<in> obstacles w \<or>
          (if mode_concurrency (configs (w_args w)) = M_PROCESS then File_Locked \<in> obstacles w else p_mutex w)
      | UB e \<Rightarrow> e = Out_Of_Bounds \<or> e = Uninitialised
      | _ \<Rightarrow> False)"

lemma linux_memory_mapping_ends: "wp (linux_memory_mapping env path) (map_ends w) w"
  unfolding linux_memory_mapping_def
  by (auto simp: wp_rules map_ends_def map_frame_def
      split: option.split list.split tx_event.split)

text \<open>The file is sent whole when the network takes it whole.\<close>

lemma mapping_sends:
  assumes "os_open env path" and "os_fstat env path = Some (length c)" and "os_mmap env path = Some c"
    and "c \<noteq> []" and "length c < 2 ^ 31" and "os_thread env" and "send_ready w"
    and "\<not> p_mutex w" and "\<not> file_lock w" and "File_Locked \<notin> obstacles w"
  shows "linux_memory_mapping env path w =
    (Ret (int (length c)),
     w\<lparr>out := out w @ c, closes := Suc (closes w), file_open := False, file_lock := False\<rparr>)"
proof -
  have size: "to_int32 (int (length c)) = int (length c)"
    using assms(5) by (intro to_int32_id) auto
  have "wp (linux_memory_mapping env path) (\<lambda>r w'. r = Ret (int (length c)) \<and>
     w' = w\<lparr>out := out w @ c, closes := Suc (closes w), file_open := False, file_lock := False\<rparr>) w"
    unfolding linux_memory_mapping_def
    using assms by (simp add: wp_rules fileSize_def size send_ready_def sock_usable_def)
  then show ?thesis by (simp add: wp_fst_snd prod_eq_iff)
qed

text \<open>The chunked sender gets everything through when calls are only cut short.\<close>

lemma l_send_loop_step:
  assumes "0 < sint len" and "sint pos = int p"
    and "sint (if 512 < sint len then 512 else len) = int chunk" and "p + chunk \<le> length msg"
    and "sendM (take chunk (drop p msg)) w = (Ret n, w1)" and "n \<noteq> - 1"
  shows "l_send_loop msg pos len w = l_send_loop msg (pos + word_of_int n) (len - word_of_int n) w1"
  using assms(1,2,4-6) by (subst l_send_loop.simps) (simp only: Let_def assms(3), simp add: bindM_def)

lemma l_send_loop_complete:
  assumes "sock_usable w" and "list_all (\<lambda>e. \<exists>k. e = Tx_Short k) (tx w)"
    and "Client_Stalled \<notin> obstacles w" and "length msg < 2 ^ 31" and "pos \<le> length msg"
  shows "\<exists>tx'. l_send_loop msg (word_of_nat pos) (word_of_nat (length msg - pos)) w =
    (Ret (), w\<lparr>out := out w @ drop pos msg, tx := tx'\<rparr>)"
  using assms
proof (induction "length (tx w) + (length msg - pos)" arbitrary: pos w rule: less_induct)
  case less
  let ?len = "length msg - pos"
  have s: "sint (word_of_nat pos :: 32 word) = int pos" "sint (word_of_nat ?len :: 32 word) = int ?len"
    using less.prems(4,5) by (simp_all only: sint_word_of_nat)
  show ?case
  proof (cases "0 < ?len")
    case False
    then have "drop pos msg = []" by simp
    then show ?thesis
      using False s by (subst l_send_loop.simps) (auto intro: exI [of _ "tx w"])
  next
    case True
    define chunk where "chunk = min 512 ?len"
    define n where "n = (case tx w of Tx_Short k # _ \<Rightarrow> min k chunk | _ \<Rightarrow> chunk)"
    define w1 where "w1 = w\<lparr>out := out w @ take n (drop pos msg), tx := drop 1 (tx w)\<rparr>"
    have c: "0 < chunk" "chunk \<le> ?len" using True by (auto simp: chunk_def)
    have chunk: "sint (if 512 < sint (word_of_nat ?len :: 32 word) then 512 else word_of_nat ?len :: 32 word) = int chunk"
      using s(2) by (auto simp: chunk_def)
    have n: "n \<le> chunk" by (auto simp: n_def split: list.split tx_event.split)
    have send: "sendM (take chunk (drop pos msg)) w = (Ret (int n), w1)"
      using less.prems(1-3) c
      by (cases "tx w") (auto simp: sendM_def n_def w1_def min.commute)
    have smaller: "length (tx w1) + (length msg - (pos + n)) < length (tx w) + ?len"
      using c by (cases "tx w") (auto simp: n_def w1_def)
    have words: "word_of_nat pos + word_of_int (int n) = (word_of_nat (pos + n) :: 32 word)"
      "word_of_nat ?len - word_of_int (int n) = (word_of_nat (length msg - (pos + n)) :: 32 word)"
      using n c by (simp_all add: of_nat_diff)
    have "\<exists>tx'. l_send_loop msg (word_of_nat (pos + n)) (word_of_nat (length msg - (pos + n))) w1 =
        (Ret (), w1\<lparr>out := out w1 @ drop (pos + n) msg, tx := tx'\<rparr>)"
    proof (rule less.hyps [OF smaller])
      show "sock_usable w1" using less.prems(1) by (simp add: w1_def sock_usable_def)
      show "list_all (\<lambda>e. \<exists>k. e = Tx_Short k) (tx w1)"
        using less.prems(2) by (cases "tx w") (auto simp: w1_def)
      show "Client_Stalled \<notin> obstacles w1" using less.prems(3) by (simp add: w1_def)
    qed (use n c less.prems in linarith)+
    moreover have "take n (drop pos msg) @ drop (pos + n) msg = drop pos msg"
      by (metis append_take_drop_id drop_drop add.commute)
    moreover have "l_send_loop msg (word_of_nat pos) (word_of_nat ?len) w =
        l_send_loop msg (word_of_nat (pos + n)) (word_of_nat (length msg - (pos + n))) w1"
      unfolding words [symmetric] using True c s chunk send by (intro l_send_loop_step) auto
    ultimately show ?thesis by (auto simp: w1_def)
  qed
qed

section \<open>Properties\<close>

text \<open>Claim C22. Suppose a file that is not empty can be opened and mapped, its locks are free, the
  sending thread is created and the network takes whatever one \<open>send\<close> is given. Then the transfer
  depends on the size only through its lowest 32 bits, read as an \<open>int\<close> \<open>n\<close>. When \<open>n\<close> is negative (2 up to 4
  GiB, 6 up to 8 GiB, and so on) \<open>send\<close> is told an enormous length and reads behind the mapping.
  Otherwise exactly the first \<open>n\<close> bytes are sent, \<open>n\<close> is returned, the file and the
  connection are closed and the locks are free again: that is the whole file below 2 GiB, and only
  a prefix from 4 up to 6 GiB, nothing at 4 GiB itself.\<close>

theorem linux_memory_mapping_sends:
  assumes "os_open env path" and "os_fstat env path = Some (length c)" and "os_mmap env path = Some c"
    and "c \<noteq> []" and "os_thread env" and "send_ready w" and "\<not> p_mutex w" and "\<not> file_lock w"
    and "File_Locked \<notin> obstacles w"
  shows "let n = to_int32 (int (length c)) in
    if n < 0 then fst (linux_memory_mapping env path w) = UB Out_Of_Bounds
    else linux_memory_mapping env path w =
      (Ret n, w\<lparr>out := out w @ take (nat n) c, closes := Suc (closes w), file_open := False,
                 file_lock := False\<rparr>)"
proof -
  let ?n = "to_int32 (int (length c))"
  have "wp (linux_memory_mapping env path) (\<lambda>r w'. if ?n < 0 then r = UB Out_Of_Bounds
     else r = Ret ?n \<and> w' = w\<lparr>out := out w @ take (nat ?n) c, closes := Suc (closes w),
       file_open := False, file_lock := False\<rparr>) w"
    unfolding linux_memory_mapping_def
    using assms by (simp add: wp_rules fileSize_def send_ready_def sock_usable_def)
  then show ?thesis by (simp add: wp_fst_snd prod_eq_iff Let_def split: if_splits)
qed

definition small_file :: "string \<Rightarrow> os" where
  "small_file c = \<lparr>os_stat = \<lambda>_. Some 0x81A4, os_realpath = \<lambda>p. Some p, os_opendir = \<lambda>_. None,
     os_popen = \<lambda>_. Popen_Line (''text/plain'' @ [NL]), os_open = \<lambda>_. True,
     os_fstat = \<lambda>_. Some (length c), os_mmap = \<lambda>_. if c = [] then None else Some c, os_thread = True\<rparr>"

lemma small_file_simps [simp]:
  "os_open (small_file c) p" "os_fstat (small_file c) p = Some (length c)"
  "os_mmap (small_file c) p = (if c = [] then None else Some c)" "os_thread (small_file c)"
  "os_stat (small_file c) p = Some 0x81A4" "os_realpath (small_file c) p = Some p"
  "os_popen (small_file c) cmd = Popen_Line (''text/plain'' @ [NL])"
  by (simp_all add: small_file_def)

theorem linux_memory_mapping_sends_witness:
  "out (snd (linux_memory_mapping (small_file ''hello'') ''/srv/a'' (client_world []))) = ''hello''"
  using linux_memory_mapping_sends [of "small_file ''hello''" "''/srv/a''" "''hello''" "client_world []"]
  by (simp add: to_int32_id)

text \<open>A short \<open>send\<close> truncates the file: the single call's result is not looked at, the
  rest is never sent and the transfer still reports the full size.\<close>

theorem short_send_truncates:
  assumes "os_open env path" and "os_fstat env path = Some (length c)" and "os_mmap env path = Some c"
    and "c \<noteq> []" and "length c < 2 ^ 31" and "os_thread env" and "sock_usable w"
    and "tx w = Tx_Short k # rest" and "\<not> p_mutex w" and "\<not> file_lock w"
    and "File_Locked \<notin> obstacles w"
  shows "fst (linux_memory_mapping env path w) = Ret (int (length c)) \<and>
    out (snd (linux_memory_mapping env path w)) = out w @ take k c"
proof -
  have size: "to_int32 (int (length c)) = int (length c)"
    using assms(5) by (intro to_int32_id) auto
  have "wp (linux_memory_mapping env path) (\<lambda>r w'. r = Ret (int (length c)) \<and>
     out w' = out w @ take k c) w"
    unfolding linux_memory_mapping_def
    using assms by (simp add: wp_rules fileSize_def size sock_usable_def)
  then show ?thesis by (simp add: wp_fst_snd)
qed

theorem short_send_truncates_witness:
  "\<exists>w. fst (linux_memory_mapping (small_file ''hello'') ''/srv/a'' w) = Ret 5 \<and>
     out (snd (linux_memory_mapping (small_file ''hello'') ''/srv/a'' w)) = ''he''"
proof -
  let ?w = "(client_world [])\<lparr>tx := [Tx_Short 2]\<rparr>"
  have "sock_usable ?w" using client_world_simps(4) by (simp add: sock_usable_def)
  then show ?thesis
    using short_send_truncates [of "small_file ''hello''" "''/srv/a''" "''hello''" ?w 2 "[]"]
    by (intro exI [of _ ?w]) simp
qed

text \<open>Claim C23. The chunked sender that the mapping does not use delivers the whole message even
  when every call is cut short, for every length that its \<open>int\<close> can hold and as long as the
  client does not stop reading for ever.\<close>

theorem l_sendFile_complete:
  assumes "sock_usable w" and "list_all (\<lambda>e. \<exists>k. e = Tx_Short k) (tx w)"
    and "Client_Stalled \<notin> obstacles w" and "length msg < 2 ^ 31"
  shows "fst (l_sendFile msg (word_of_nat (length msg)) w) = Ret () \<and>
    out (snd (l_sendFile msg (word_of_nat (length msg)) w)) = out w @ msg"
  using l_send_loop_complete [OF assms, of 0] by (auto simp: l_sendFile_def)

theorem l_sendFile_complete_witness:
  "\<exists>w. tx w = [Tx_Short 2, Tx_Short 0] \<and> out (snd (l_sendFile ''hello'' 5 w)) = ''hello''"
proof -
  let ?w = "(client_world [])\<lparr>tx := [Tx_Short 2, Tx_Short 0]\<rparr>"
  have "sock_usable ?w" using client_world_simps(4) by (simp add: sock_usable_def)
  then show ?thesis
    using l_sendFile_complete [of ?w "''hello''"] by (intro exI [of _ ?w]) simp
qed

text \<open>A longer message is not sent at all when its length, cut to an \<open>int\<close>, is not positive.\<close>

theorem l_sendFile_too_long:
  assumes "to_int32 len \<le> 0"
  shows "l_sendFile msg (word_of_int len) w = (Ret (), w)"
  using assms by (simp add: l_sendFile_def l_send_loop.simps to_int32_def)

theorem l_sendFile_too_long_witness:
  "l_sendFile msg (word_of_int (2 ^ 31)) w = (Ret (), w)"
  by (rule l_sendFile_too_long) (simp add: to_int32_def)

text \<open>A transfer that finds the mutex held waits.\<close>

lemma mapping_waits:
  assumes "p_mutex v" and "mode_concurrency (configs (w_args v)) = M_THREAD" and "os_open env path"
  shows "fst (linux_memory_mapping env path v) = Blocked"
proof -
  have "wp (linux_memory_mapping env path) (\<lambda>r _. r = Blocked) v"
    unfolding linux_memory_mapping_def using assms by (simp add: wp_rules modes)
  then show ?thesis by (simp add: wp_fst_snd)
qed

text \<open>Claim C28. In thread mode the mutex is only released on the path of a complete transfer. An
  empty file, or a failing \<open>fstat\<close> or \<open>mmap\<close>, leaves it locked, and the next transfer of any
  file waits for ever.\<close>

theorem mapping_error_blocks_later_transfers:
  assumes "os_open env path" and "mode_concurrency (configs (w_args w)) = M_THREAD" and "\<not> p_mutex w"
    and "os_fstat env path = None \<or> os_fstat env path = Some 0 \<or> os_mmap env path = None"
    and "os_open env' path'" and "mode_concurrency (configs a) = M_THREAD"
  shows "\<exists>n w'. linux_memory_mapping env path w = (Ret n, w') \<and> n \<in> {- 1, 0} \<and>
    fst (linux_memory_mapping env' path' (w'\<lparr>w_args := a\<rparr>)) = Blocked"
proof -
  have "wp (linux_memory_mapping env path) (\<lambda>r w'. (r = Ret (- 1) \<or> r = Ret 0) \<and> p_mutex w') w"
    unfolding linux_memory_mapping_def
    using assms(1-4) by (auto simp: wp_rules modes split: option.split)
  then obtain n w' where "linux_memory_mapping env path w = (Ret n, w')" "n \<in> {- 1, 0}" "p_mutex w'"
    by (cases "linux_memory_mapping env path w") (auto simp: wp_def)
  then show ?thesis using mapping_waits [OF _ _ assms(5)] assms(6) by auto
qed

theorem mapping_error_blocks_later_transfers_witness:
  "\<exists>w'. linux_memory_mapping (small_file []) ''/srv/empty'' (client_world []) = (Ret 0, w') \<and>
     fst (linux_memory_mapping (small_file ''hello'') ''/srv/a'' w') = Blocked"
proof -
  let ?w = "client_world []"
  obtain n w' where run: "linux_memory_mapping (small_file []) ''/srv/empty'' ?w = (Ret n, w')"
    and b: "fst (linux_memory_mapping (small_file ''hello'') ''/srv/a'' (w'\<lparr>w_args := w_args ?w\<rparr>)) = Blocked"
    using mapping_error_blocks_later_transfers [of "small_file []" "''/srv/empty''" ?w
        "small_file ''hello''" "''/srv/a''" "w_args ?w"] by auto
  have "wp (linux_memory_mapping (small_file []) ''/srv/empty'') (\<lambda>r v. r = Ret 0 \<and> w_args v = w_args ?w) ?w"
    unfolding linux_memory_mapping_def by (simp add: wp_rules modes)
  with run have n: "n = 0" and args: "w_args w' = w_args ?w" by (auto simp: wp_def)
  have "w'\<lparr>w_args := w_args ?w\<rparr> = w'" unfolding args [symmetric] by simp
  from b [unfolded this] show ?thesis using run n by auto
qed

text \<open>There is no time limit on \<open>send\<close> either: a client that asks for a file and does not read it keeps
  the mutex, and every later transfer, of any file to any client, waits with it.\<close>

theorem stalled_client_blocks_transfers:
  assumes "os_open env path" and "os_fstat env path = Some (length c)" and "os_mmap env path = Some c"
    and "c \<noteq> []" and "length c < 2 ^ 31" and "os_thread env"
    and "mode_concurrency (configs (w_args w)) = M_THREAD" and "\<not> p_mutex w"
    and "sock_usable w" and "tx w = []" and "Client_Stalled \<in> obstacles w"
    and "os_open env' path'" and "mode_concurrency (configs a) = M_THREAD" and "p_mutex v = p_mutex w'"
    and "linux_memory_mapping env path w = (r, w')" and "w_args v = a"
  shows "r = Blocked \<and> fst (linux_memory_mapping env' path' v) = Blocked"
proof -
  have size: "to_int32 (int (length c)) = int (length c)"
    using assms(5) by (intro to_int32_id) auto
  have "wp (linux_memory_mapping env path) (\<lambda>r w'. r = Blocked \<and> p_mutex w') w"
    unfolding linux_memory_mapping_def
    using assms(1-11) by (simp add: wp_rules fileSize_def size sock_usable_def modes)
  then have "r = Blocked" "p_mutex w'" using assms(15) by (simp_all add: wp_def)
  then show ?thesis using mapping_waits [OF _ _ assms(12), of v] assms(13,14,16) by simp
qed

theorem stalled_client_blocks_transfers_witness:
  "\<exists>w w'. linux_memory_mapping (small_file ''hello'') ''/srv/a'' w = (Blocked, w') \<and>
     fst (linux_memory_mapping (small_file ''a'') ''/srv/b'' ((client_world [])\<lparr>p_mutex := p_mutex w'\<rparr>)) = Blocked"
proof -
  let ?w = "(client_world [])\<lparr>obstacles := {Client_Stalled}\<rparr>"
  obtain r w' where run: "linux_memory_mapping (small_file ''hello'') ''/srv/a'' ?w = (r, w')" by fastforce
  have "sock_usable ?w" using client_world_simps(4) by (simp add: sock_usable_def)
  then show ?thesis
    using stalled_client_blocks_transfers [of "small_file ''hello''" "''/srv/a''" "''hello''" ?w
        "small_file ''a''" "''/srv/b''" "w_args ?w" "(client_world [])\<lparr>p_mutex := p_mutex w'\<rparr>" w' r] run
    by (intro exI [of _ ?w] exI [of _ w']) simp
qed

text \<open>When the sending thread cannot be created, the file is sent all the same, but then
  the code joins a thread identifier that was never written.\<close>

theorem mapping_joins_uninitialised_thread:
  assumes "os_open env path" and "os_fstat env path = Some (length c)" and "os_mmap env path = Some c"
    and "c \<noteq> []" and "length c < 2 ^ 31" and "\<not> os_thread env" and "send_ready w"
    and "\<not> p_mutex w" and "File_Locked \<notin> obstacles w"
  shows "fst (linux_memory_mapping env path w) = UB Uninitialised \<and>
    out (snd (linux_memory_mapping env path w)) = out w @ c"
proof -
  have size: "to_int32 (int (length c)) = int (length c)"
    using assms(5) by (intro to_int32_id) auto
  have "wp (linux_memory_mapping env path) (\<lambda>r w'. r = UB Uninitialised \<and> out w' = out w @ c) w"
    unfolding linux_memory_mapping_def
    using assms by (simp add: wp_rules fileSize_def size send_ready_def sock_usable_def)
  then show ?thesis by (simp add: wp_fst_snd)
qed

theorem mapping_joins_uninitialised_thread_witness:
  "\<exists>env. fst (linux_memory_mapping env ''/srv/a'' (client_world [])) = UB Uninitialised"
  using mapping_joins_uninitialised_thread [of "(small_file ''hello'')\<lparr>os_thread := False\<rparr>" "''/srv/a''"
      "''hello''" "client_world []"] by auto

end
