(* ===== verification/Request.thy ===== *)
theory Request
  imports MemoryMapping
begin

text \<open>
  One request from the accepted connection to its end: \<open>handle_request\<close> of
  \<open>linux/lib/socket/linux_socket.c\<close>, \<open>socket_manage_files\<close> of
  \<open>general/lib/socket/socket.c\<close> and the message that
  \<open>socket_pipe_log_server_single_process\<close> of \<open>linux/lib/pipe/linux_pipe.c\<close> makes.

  \<^item> \<open>handle_request\<close> calls the operations of the other theories in the code's order; the
    client's bytes, the file system and all failures are in the world and in \<open>os\<close>.
  \<^item> \<open>answer\<close> is the specification: the bytes that a path is worth. The refinement theorem says
    that a request that meets no failure delivers exactly these bytes and one log message.
  \<^item> \<open>request_ends\<close> is the safety invariant, for every behaviour of client, allocator and system.
\<close>

section \<open>Definitions\<close>

text \<open>The text of a log message. \<open>%s\<close> of the host name reads \<open>ip_buffer\<close>.\<close>

definition log_text :: "string \<Rightarrow> int \<Rightarrow> string \<Rightarrow> string \<Rightarrow> int \<Rightarrow> string" where
  "log_text path sz ip host port =
     ''FileName: '' @ path @ [TAB] @ show_int sz @ '' Byte '' @ [TAB] @ '' IP Client: '' @ ip @
     '' '' @ [TAB] @ '' '' @ host @ '' Port: '' @ show_int port"

definition socket_pipe_log_server_single_process :: "string \<Rightarrow> int \<Rightarrow> (world, unit) prog" where
  "socket_pipe_log_server_single_process path dim_file_to_send =
     thenM log_token
     (thenM log_lock
     (bindM (getM w_args) (\<lambda>args.
      bindM (getM ip_buffer) (\<lambda>host_text.
      bindM (case hostname (configs args) of
               Host_Unset \<Rightarrow> stopM (UB Uninitialised)
             | Host_Ip_Buffer \<Rightarrow> retM host_text) (\<lambda>host.
      thenM log_pipe
      (log_message (snprintf_text (BUFFER_SIZE * 2)
       (log_text path dim_file_to_send (ip_client args) host (port_int (configs args))))))))))"

definition socket_manage_files :: "os \<Rightarrow> string \<Rightarrow> string \<Rightarrow> (world, unit) prog" where
  "socket_manage_files env path buf =
     bindM (file_type env path) (\<lambda>type_file.
     thenM (if FILES_NOT_EXIST = type_file \<or> type_file = FILES_NOT_PERMITTED
            then thenM (set_type_Request 1) (socket_send_error_to_client path buf)
            else retM ())
     (bindM (getGopherCode env path) (\<lambda>code.
     thenM (if code < 0 then clean_request True True else retM ())
     (if FILES_IS_DIRECTORY = type_file then
        thenM (set_type_Request 1)
        (bindM (getM (\<lambda>w. port_int (configs (w_args w)))) (\<lambda>port.
         thenM (print_directory (os_opendir env) (getGopherCode env) path socket_send_message port) (retM ())))
      else if FILES_IS_REG_FILE = type_file then
        thenM (set_type_Request 0)
        (bindM (linux_memory_mapping env path) (\<lambda>map_size.
         if map_size < 0 then retM ()
         else socket_pipe_log_server_single_process path map_size))
      else retM ()))))"

definition handle_request :: "os \<Rightarrow> (world, unit) prog" where
  "handle_request env =
     bindM socket_read_request (\<lambda>(ret, buffer).
     bindM (socket_resolve_selector (cstr buffer)) (\<lambda>path.
     thenM (if ret = - 2 then socket_send_too_long_error_to_client (path \<noteq> None) else retM ())
     (thenM (socket_manage_files env (the path) (cstr buffer))
     (clean_request (path \<noteq> None) True))))"

section \<open>How a request ends\<close>

text \<open>
  A request ends its thread or its process after it has freed its own five blocks; the descriptor
  has been closed at most once. Otherwise the process was killed by \<open>SIGPIPE\<close>, the request waits
  for ever, or it has run into one of the listed faults. It never frees a block twice and never
  returns.

  None of the calls has a time limit, so \<open>may_wait\<close> has every reason to wait: a client that sends
  nothing or takes nothing, the log process, and the lock of the file (process mode) or the mutex
  of the transfers (thread mode).
\<close>

definition may_wait :: "world \<Rightarrow> bool" where
  "may_wait w \<longleftrightarrow> Client_Silent \<in> obstacles w \<or> Client_Stalled \<in> obstacles w \<or>
     Log_No_Token \<in> obstacles w \<or> Log_Mutex_Held \<in> obstacles w \<or>
     Log_Pipe_Full \<in> obstacles w \<or>
     (if mode_concurrency (configs (w_args w)) = M_PROCESS then File_Locked \<in> obstacles w else p_mutex w)"

definition may_sigpipe :: "world \<Rightarrow> bool" where
  "may_sigpipe w \<longleftrightarrow> No_Sigpipe \<notin> obstacles w \<or> Log_No_Reader \<in> obstacles w"

definition request_ends :: "world \<Rightarrow> 'a res \<Rightarrow> world \<Rightarrow> bool" where
  "request_ends w r w' \<longleftrightarrow>
     (case r of
        Exit n \<Rightarrow> n = 0 \<and> mode_concurrency (configs (w_args w)) \<noteq> M_THREAD \<and>
          holds {} w' \<and> closes w' \<le> Suc (closes w)
      | Thread_Exit \<Rightarrow> mode_concurrency (configs (w_args w)) = M_THREAD \<and>
          holds {} w' \<and> closes w' \<le> Suc (closes w)
      | Killed s \<Rightarrow> s = SIGPIPE \<and> may_sigpipe w
      | Blocked \<Rightarrow> may_wait w
      | UB e \<Rightarrow> e \<noteq> Double_Free
      | Ret _ \<Rightarrow> False)"

text \<open>Two argument structs that differ in \<open>type_Request\<close> only.\<close>

definition same_args :: "ThreadArgs \<Rightarrow> ThreadArgs \<Rightarrow> bool" where
  "same_args a b \<longleftrightarrow> fd a = fd b \<and> configs a = configs b \<and> ip_client a = ip_client b"

lemma same_args_simps [simp]:
  "same_args a a" "same_args a (b\<lparr>type_Request := n\<rparr>) = same_args a b"
  by (simp_all add: same_args_def)

text \<open>The handler is still running: it owns its four blocks and has not closed the descriptor, or
  has closed it as a part of a transfer and will not do so again. Before a transfer the mutex is
  as the handler found it.\<close>

definition running :: "world \<Rightarrow> world \<Rightarrow> bool" where
  "running w0 w \<longleftrightarrow> holds {Blk_Ip, Blk_Args, Blk_Buf, Blk_Path} w \<and>
     same_args (w_args w0) (w_args w) \<and> obstacles w = obstacles w0 \<and>
     (closes w = closes w0 \<or> closes w = Suc (closes w0) \<and> type_Request (w_args w) = 0)"

definition idle :: "world \<Rightarrow> world \<Rightarrow> bool" where
  "idle w0 w \<longleftrightarrow> running w0 w \<and> closes w = closes w0 \<and> p_mutex w = p_mutex w0"

lemma cleaned_ends:
  assumes "cleaned v r w'" and "same_args (w_args w) (w_args v)"
    and "closes v = closes w \<or> closes v = Suc (closes w) \<and> type_Request (w_args v) = 0"
  shows "request_ends w r w'"
  using assms by (auto simp: cleaned_def request_ends_def same_args_def)

lemma clean_running: "running w0 w \<Longrightarrow> wp (clean_request True True) (request_ends w0) w"
  by (rule wp_mono [OF clean_request_cleaned [where B = "{Blk_Ip, Blk_Args, Blk_Buf, Blk_Path}"]])
    (auto simp: running_def intro: cleaned_ends)

lemma running_frame: "running w0 w \<Longrightarrow> frame w w' \<Longrightarrow> running w0 w'"
  using holds_frame [of w w'] by (simp add: running_def) (simp add: frame_def)

lemma idle_frame: "idle w0 w \<Longrightarrow> frame w w' \<Longrightarrow> idle w0 w'"
  using running_frame [of w0 w w'] by (simp add: idle_def frame_def)

lemma idle_running: "idle w0 w \<Longrightarrow> running w0 w"
  by (simp add: idle_def)

text \<open>After a step that may also stop: what is left to show is the part that goes on.\<close>

definition goes_on :: "world \<Rightarrow> 'a res \<Rightarrow> world \<Rightarrow> bool" where
  "goes_on w0 r w \<longleftrightarrow> (case r of Ret _ \<Rightarrow> running w0 w | _ \<Rightarrow> request_ends w0 r w)"

lemma request_ends_simps [simp]:
  "\<not> request_ends w (Ret x) w'" "request_ends w (Killed SIGPIPE) w' \<longleftrightarrow> may_sigpipe w"
  "request_ends w Blocked w' \<longleftrightarrow> may_wait w"
  "request_ends w (UB e) w' \<longleftrightarrow> e \<noteq> Double_Free"
  by (simp_all add: request_ends_def)

lemma goes_on_simps [simp]:
  "goes_on w0 (Ret x) w \<longleftrightarrow> running w0 w" "goes_on w0 (Killed SIGPIPE) w \<longleftrightarrow> may_sigpipe w0"
  "goes_on w0 Blocked w \<longleftrightarrow> may_wait w0"
  "goes_on w0 (UB e) w \<longleftrightarrow> e \<noteq> Double_Free"
  by (simp_all add: goes_on_def)

lemma net_stop_ends:
  assumes "net_stop w r" and "obstacles w = obstacles w0"
  shows "request_ends w0 r w'"
  using assms by (cases r) (auto simp: request_ends_def may_wait_def may_sigpipe_def)

lemma net_stop_goes_on: "net_stop w r \<Longrightarrow> obstacles w = obstacles w0 \<Longrightarrow> goes_on w0 r w'"
  using net_stop_ends [of w r w0 w'] by (cases r) (simp_all add: goes_on_def)

lemma goes_on_bind:
  assumes "wp m (goes_on w0) w" and "\<And>x w'. running w0 w' \<Longrightarrow> wp (f x) (goes_on w0) w'"
  shows "wp (bindM m f) (goes_on w0) w"
  by (rule wp_seqI [OF assms(1)])
    (use assms(2) in \<open>auto simp: goes_on_def request_ends_def\<close>)

lemma goes_on_ends:
  assumes "wp m (goes_on w0) w" and "\<And>x w'. running w0 w' \<Longrightarrow> wp (f x) (request_ends w0) w'"
  shows "wp (bindM m f) (request_ends w0) w"
  by (rule wp_seqI [OF assms(1)])
    (use assms(2) in \<open>auto simp: goes_on_def request_ends_def\<close>)

lemma ends_goes_on: "wp m (request_ends w0) w \<Longrightarrow> wp m (goes_on w0) w"
  by (erule wp_mono) (auto simp: goes_on_def request_ends_def split: res.splits)

subsection \<open>The steps of the handler\<close>

definition real_port :: "world \<Rightarrow> bool" where
  "real_port w \<longleftrightarrow> 0 \<le> port_int (configs (w_args w)) \<and> port_int (configs (w_args w)) < 65536"

lemma running_port: "running w0 w \<Longrightarrow> real_port w0 \<Longrightarrow> real_port w"
  by (simp add: running_def real_port_def same_args_def)

lemma error_step:
  assumes "running w0 w" and "real_port w0" and "closes w = closes w0"
  shows "wp (thenM (set_type_Request 1) (socket_send_error_to_client path buf)) (request_ends w0) w"
proof -
  let ?w = "w\<lparr>w_args := (w_args w)\<lparr>type_Request := 1\<rparr>\<rparr>"
  have "wp (socket_send_error_to_client path buf)
      (\<lambda>r w'. net_stop ?w r \<or> (\<exists>o'. cleaned (?w\<lparr>out := o'\<rparr>) r w')) ?w"
    using assms running_port [OF assms(1,2)]
    by (intro error_to_client_ends) (auto simp: running_def real_port_fits real_port_def insert_commute)
  then have "wp (socket_send_error_to_client path buf) (request_ends w0) ?w"
    by (rule wp_mono)
      (use assms in \<open>auto simp: running_def elim!: cleaned_ends net_stop_ends\<close>)
  then show ?thesis by (simp add: wp_thenM wp_set_type_Request)
qed

lemma directory_step:
  assumes "running w0 w" and "real_port w0" and "closes w = closes w0"
  shows "wp (thenM (set_type_Request 1)
        (bindM (getM (\<lambda>w. port_int (configs (w_args w)))) (\<lambda>port.
         thenM (print_directory (os_opendir env) (getGopherCode env) path socket_send_message port) (retM ())))) (goes_on w0) w"
proof -
  let ?w = "w\<lparr>w_args := (w_args w)\<lparr>type_Request := 1\<rparr>\<rparr>"
  let ?port = "port_int (configs (w_args w))"
  have run: "running w0 ?w" using assms by (simp add: running_def)
  have port: "0 \<le> ?port" "?port < 65536"
    using running_port [OF assms(1,2)] by (auto simp: real_port_def)
  have "wp (print_directory (os_opendir env) (getGopherCode env) path socket_send_message ?port) (listing_ends ?w) ?w"
    unfolding print_directory_def using linux_list.print_entries_ends [OF port]
    by (auto simp: listing_ends_simps split: option.split)
  then have "wp (print_directory (os_opendir env) (getGopherCode env) path socket_send_message ?port) (goes_on w0) ?w"
    by (rule wp_mono) (use running_frame [OF run] assms(1) in
        \<open>auto simp: listing_ends_def running_def [of w0 w] elim!: net_stop_goes_on\<close>)
  then have "wp (thenM (print_directory (os_opendir env) (getGopherCode env) path socket_send_message ?port) (retM ())) (goes_on w0) ?w"
    unfolding thenM_def by (rule goes_on_bind) simp
  then show ?thesis by (simp add: wp_thenM wp_set_type_Request wp_bindM)
qed

lemma transfer_step:
  assumes "idle w0 w"
  shows "wp (thenM (set_type_Request 0)
      (bindM (linux_memory_mapping env path) (\<lambda>map_size.
         if map_size < 0 then retM ()
         else socket_pipe_log_server_single_process path map_size))) (goes_on w0) w"
proof -
  let ?w = "w\<lparr>w_args := (w_args w)\<lparr>type_Request := 0\<rparr>\<rparr>"
  have "wp (linux_memory_mapping env path) (goes_on w0) ?w"
    by (rule wp_mono [OF linux_memory_mapping_ends])
      (use assms in \<open>auto simp: map_ends_def map_frame_def idle_def running_def same_args_def may_wait_def
        may_sigpipe_def split: res.splits if_splits\<close>)
  moreover have "wp (socket_pipe_log_server_single_process path n) (goes_on w0) v" if "running w0 v" for n v
    using that unfolding socket_pipe_log_server_single_process_def
    by (auto simp: wp_rules running_def may_wait_def may_sigpipe_def split: host_ptr.split)
  ultimately have "wp (bindM (linux_memory_mapping env path) (\<lambda>map_size.
         if map_size < 0 then retM ()
         else socket_pipe_log_server_single_process path map_size)) (goes_on w0) ?w"
    by (intro goes_on_bind) auto
  then show ?thesis by (simp add: wp_thenM wp_set_type_Request)
qed

text \<open>What a request that has already ended does not do.\<close>

lemma stops_then: "wp m (request_ends w0) w \<Longrightarrow> wp (thenM m n) (goes_on w0) w"
  unfolding thenM_def
  by (erule wp_seqI) (auto simp: request_ends_def goes_on_def)

lemma retM_then [simp]: "thenM (retM x) n = n"
  by (simp add: thenM_def)

lemma manage_files_step:
  assumes idle: "idle w0 w" and port: "real_port w0"
  shows "wp (socket_manage_files env path buf) (goes_on w0) w"
proof -
  let ?t = "file_class env (cwd w) path"
  let ?w = "w\<lparr>live := file_type_blks env (cwd w) path @ live w\<rparr>"
  have idle': "idle w0 ?w"
  proof (rule idle_frame [OF idle])
    have "set (file_type_blks env (cwd w) path) \<inter> core = {}"
      using set_file_type_blks by (auto simp: core_def)
    then show "frame w ?w" by (auto simp: frame_def core_live_def filter_empty_conv)
  qed
  have err: "wp (thenM (thenM (set_type_Request 1) (socket_send_error_to_client path buf)) n) (goes_on w0) ?w"
    for n :: "(world, unit) prog"
    using idle' port by (intro stops_then error_step) (auto simp: idle_def)
  have code: "wp (bindM (getGopherCode env path) f) (goes_on w0) ?w"
    if "\<And>x v. idle w0 v \<Longrightarrow> wp (f x) (goes_on w0) v" for f :: "int \<Rightarrow> (world, unit) prog"
    by (rule wp_seqI [OF getGopherCode_frame]) (use that idle_frame [OF idle'] in auto)
  have clean: "wp (thenM (clean_request True True) n) (goes_on w0) v" if "idle w0 v"
    for v and n :: "(world, unit) prog"
    using that by (intro stops_then clean_running idle_running)
  note dir = directory_step [OF _ port]
  show ?thesis
    unfolding socket_manage_files_def
    by (simp only: wp_bindM [of "file_type env path"] wp_file_type seq_post.simps)
      (auto simp: err intro!: code clean dir transfer_step split: if_split
        intro: idle_running, auto simp: idle_def)
qed

lemma resolve_step:
  assumes "holds {Blk_Ip, Blk_Args, Blk_Buf} w" and "same_args (w_args w0) (w_args w)"
    and "closes w = closes w0" and "p_mutex w = p_mutex w0" and "obstacles w = obstacles w0"
  shows "wp (socket_resolve_selector sel)
    (\<lambda>r w'. case r of Ret p \<Rightarrow> idle w0 w' \<and> p \<noteq> None | _ \<Rightarrow> request_ends w0 r w') w"
proof -
  let ?Q = "\<lambda>r w'. case r of Ret p \<Rightarrow> idle w0 w' \<and> p \<noteq> None | _ \<Rightarrow> request_ends w0 r w'"
  have ends: "request_ends w0 r w' \<Longrightarrow> ?Q r w'" for r w'
    by (cases r) simp_all
  have clean: "wp (clean_request False True) ?Q (w\<lparr>oom := m\<rparr>)" for m
    by (rule wp_mono [OF clean_request_cleaned [where B = "{Blk_Ip, Blk_Args, Blk_Buf}"]])
      (use assms in \<open>auto intro!: ends elim!: cleaned_ends\<close>)
  have alloc: "idle w0 (w\<lparr>live := Blk_Path # live w, oom := m\<rparr>)" for m
    using assms owns_alloc [of "{Blk_Ip, Blk_Args, Blk_Buf}" "live w" Blk_Path]
    by (simp add: idle_def running_def core_def insert_commute)
  have alloc': "idle w0 (w\<lparr>live := Blk_Path # live w\<rparr>)"
    using alloc [of "oom w"] by simp
  show ?thesis
    unfolding socket_resolve_selector_def
    using clean alloc alloc'
    by (auto simp: wp_rules array_str_def free_codes split: list.split)
qed

lemma handle_request_ends:
  assumes "holds {Blk_Ip, Blk_Args} w" and "real_port w"
  shows "wp (handle_request env) (request_ends w) w"
proof -
  define after where "after = (\<lambda>(ret :: int, buffer). bindM (socket_resolve_selector (cstr buffer)) (\<lambda>path.
     thenM (if ret = - 2 then socket_send_too_long_error_to_client (path \<noteq> None) else retM ())
     (thenM (socket_manage_files env (the path) (cstr buffer))
     (clean_request (path \<noteq> None) True))) :: (world, unit) prog)"
  have rest: "wp (thenM (if ret = - 2 then socket_send_too_long_error_to_client True else retM ())
     (thenM (socket_manage_files env p b) (clean_request True True) :: (world, unit) prog)) (request_ends w) v"
    if "idle w v" for ret :: int and p b v
  proof -
    have "wp (thenM (socket_manage_files env p b) (clean_request True True) :: (world, unit) prog)
        (request_ends w) v"
      unfolding thenM_def
      by (rule goes_on_ends [OF manage_files_step]) (use that assms clean_running in auto)
    moreover have "wp (thenM (socket_send_too_long_error_to_client True :: (world, unit) prog) n)
        (request_ends w) v" for n :: "(world, unit) prog"
    proof -
      have "wp (socket_send_too_long_error_to_client True :: (world, unit) prog) (request_ends w) v"
        by (rule wp_mono [OF too_long_ends])
          (use that in \<open>auto simp: idle_def running_def elim!: cleaned_ends net_stop_ends\<close>)
      then show ?thesis
        unfolding thenM_def by (rule wp_seqI) (auto simp: request_ends_def)
    qed
    ultimately show ?thesis by simp
  qed
  have after: "wp (after x) (request_ends w) v"
    if "holds {Blk_Ip, Blk_Args, Blk_Buf} v" "same_args (w_args w) (w_args v)"
      "closes v = closes w" "p_mutex v = p_mutex w" "obstacles v = obstacles w" for x v
    unfolding after_def split_beta
  proof (rule wp_seqI [OF resolve_step [OF that]], goal_cases)
    case (1 p v')
    then obtain q where "p = Some q" "idle w v'" by auto
    then show ?case
      using rest [of v' "fst x" q "cstr (snd x)"] by (cases "fst x = - 2") simp_all
  qed (auto simp: request_ends_def)
  have hold: "owns {Blk_Ip, Blk_Args, Blk_Buf} (Blk_Buf # live w)"
    using assms(1) owns_alloc [of "{Blk_Ip, Blk_Args}" "live w" Blk_Buf]
    by (simp add: core_def insert_commute)
  show ?thesis
    unfolding handle_request_def after_def [symmetric]
  proof (rule wp_seqI [OF read_request_ends [OF assms(1)]], goal_cases)
    case (1 x v)
    then show ?case
      using hold by (auto simp: read_ends_def cleaned_def split: if_splits intro!: after)
  qed (auto simp: request_ends_def read_ends_def cleaned_def may_wait_def split: if_splits)
qed

section \<open>What a request is worth\<close>

definition answer :: "os \<Rightarrow> string \<Rightarrow> string \<Rightarrow> int \<Rightarrow> string \<Rightarrow> string \<Rightarrow> string" where
  "answer env d host port path sel =
     (let t = file_class env d path
      in if t = FILES_NOT_EXIST \<or> t = FILES_NOT_PERMITTED then error_line sel port
         else if t = FILES_IS_DIRECTORY then listing (item_code env) path host port (the (os_opendir env path))
         else if t = FILES_IS_REG_FILE then the (os_mmap env path)
         else [])"

text \<open>No call that the path needs fails.\<close>

definition healthy :: "os \<Rightarrow> string \<Rightarrow> string \<Rightarrow> bool" where
  "healthy env d path \<longleftrightarrow>
     (let t = file_class env d path
      in os_thread env \<and>
         (t \<noteq> FILES_NOT_EXIST \<and> t \<noteq> FILES_NOT_PERMITTED \<longrightarrow> (\<exists>n\<ge>0. item_code env path = Ret n)) \<and>
         (t = FILES_IS_DIRECTORY \<longrightarrow> (\<exists>es. os_opendir env path = Some es \<and>
            (\<forall>f\<in>set es. visible f \<longrightarrow> (\<exists>n. item_code env (path @ ''/'' @ f) = Ret n \<and> n \<noteq> - 1)))) \<and>
         (t = FILES_IS_REG_FILE \<longrightarrow> os_open env path \<and>
            (\<exists>c. os_fstat env path = Some (length c) \<and> os_mmap env path = Some c \<and> c \<noteq> [] \<and>
                 length c < 2 ^ 31)))"

text \<open>The complete outcome of a request for \<open>path\<close> with the selector \<open>sel\<close>.\<close>

definition log_of :: "world \<Rightarrow> string \<Rightarrow> int \<Rightarrow> string" where
  "log_of w path sz = snprintf_text (BUFFER_SIZE * 2)
     (log_text path sz (ip_client (w_args w)) (ip_buffer w) (port_int (configs (w_args w))))"

text \<open>What a request leaves on the heap: the blocks of the menu lines, those of the item type and
  those of \<open>realpath\<close>. In process mode the process ends and the system takes them back.\<close>

definition left_over :: "os \<Rightarrow> string \<Rightarrow> string \<Rightarrow> blk list" where
  "left_over env d path =
     (let t = file_class env d path
      in (if t = FILES_IS_DIRECTORY
          then listing_leak (code_leak env) path (the (os_opendir env path)) else []) @
         (if t = FILES_NOT_EXIST \<or> t = FILES_NOT_PERMITTED then [] else code_leak env path) @
         file_type_blks env d path)"

definition answered :: "os \<Rightarrow> world \<Rightarrow> string \<Rightarrow> string \<Rightarrow> 'a res \<Rightarrow> world \<Rightarrow> bool" where
  "answered env w path sel r w' \<longleftrightarrow>
     (let t = file_class env (cwd w) path; port = port_int (configs (w_args w))
      in r = (if mode_concurrency (configs (w_args w)) = M_THREAD then Thread_Exit else Exit 0) \<and>
         out w' = out w @ answer env (cwd w) (ip_buffer w) port path sel \<and>
         live w' = left_over env (cwd w) path @ others w \<and>
         closes w' = (if t = FILES_IS_UNMANAGED_FILE then closes w else Suc (closes w)) \<and>
         plog w' = plog w @ (if t = FILES_IS_REG_FILE
           then [log_of w path (int (length (the (os_mmap env path))))] else []) \<and>
         p_mutex w' = p_mutex w \<and> file_open w' = file_open w)"

text \<open>The state in which a request starts, and keeps until it has its path.\<close>

definition fresh :: "world \<Rightarrow> bool" where
  "fresh w \<longleftrightarrow> oom w = [] \<and> send_ready w \<and> real_port w \<and>
     hostname (configs (w_args w)) = Host_Ip_Buffer \<and> type_Request (w_args w) = 0 \<and>
     \<not> p_mutex w \<and> \<not> file_open w \<and> \<not> file_lock w \<and> obstacles w \<subseteq> {Client_Silent, No_Sigpipe}"

lemma fresh_obstacles:
  assumes "fresh w"
  shows "Client_Stalled \<notin> obstacles w" "File_Locked \<notin> obstacles w" "Log_No_Token \<notin> obstacles w"
    "Log_Mutex_Held \<notin> obstacles w" "Log_Pipe_Full \<notin> obstacles w" "Log_No_Reader \<notin> obstacles w"
  using assms by (auto simp: fresh_def)

lemma holds_none: "holds {} w \<Longrightarrow> live w = others w"
  unfolding owns_def others_def by (induction "live w") (auto simp: filter_id_conv)

lemma others_leak:
  "set l \<inter> core = {} \<Longrightarrow> others (w\<lparr>live := l @ m\<rparr>) = l @ others (w\<lparr>live := m\<rparr>)"
  by (auto simp: others_def filter_id_conv)

lemma listing_leak_core: "set (listing_leak (code_leak env) path es) \<inter> core = {}"
  using linux_list.listing_leak_blks [of env path es] by (auto simp: core_def)

lemma code_leak_core: "set (code_leak env path) \<inter> core = {}"
  using code_leak_set [of env path] by (auto simp: core_def)

lemma owns_leak:
  assumes "set l \<inter> core = {}"
  shows "owns B (l @ m) = owns B m"
proof -
  have "filter (\<lambda>b. b \<in> core) l = []" using assms by (auto simp: filter_empty_conv)
  then show ?thesis by (simp add: owns_def)
qed

lemma cleaned_not_Ret: "\<not> cleaned w (Ret x) w'"
  by (simp add: cleaned_def)

lemma clean_here:
  "holds {Blk_Ip, Blk_Args, Blk_Buf, Blk_Path} v \<Longrightarrow>
   wp (clean_request True True) (cleaned v) v"
  by (rule clean_request_cleaned [where B = "{Blk_Ip, Blk_Args, Blk_Buf, Blk_Path}"]) auto

lemma error_to_client_sends:
  assumes "holds {Blk_Ip, Blk_Args, Blk_Buf, Blk_Path} w" and "oom w = []" and "send_ready w"
    and "real_port w"
  shows "wp (socket_send_error_to_client path buf)
    (cleaned (w\<lparr>out := out w @ error_line buf (port_int (configs (w_args w)))\<rparr>)) w"
proof -
  let ?port = "port_int (configs (w_args w))"
  let ?w = "w\<lparr>out := out w @ error_line buf ?port\<rparr>"
  have clean: "wp (clean_request True True) (cleaned ?w) ?w"
    using assms(1) by (intro clean_here) simp
  have fits: "response_fits (chr (CHR ''3'')) ?port"
    using assms(4) by (intro real_port_fits) (auto simp: real_port_def)
  have chr3: "chr (CHR ''3'') \<noteq> - 1" by simp
  have ready: "sock_usable w" "tx w = []" "Client_Stalled \<notin> obstacles w" using assms(3) by (auto simp: send_ready_def)
  have reply: "response_text (chr (CHR ''3'')) f p h n = error_line f n" for f p h n
    by (simp add: response_text_def)
  have "?w\<lparr>live := live w\<rparr> = ?w" by simp
  then show ?thesis
    using assms(2) fits ready clean unfolding socket_send_error_to_client_def
    by (simp add: wp_bindM wp_getM wp_protocol_response chr3 wp_callocM wp_thenM reply [simplified]
        wp_socket_send_message wp_sendM sock_usable_def wp_whenM wp_freeM)
qed

lemma fresh_live: "fresh (w\<lparr>live := l\<rparr>) = fresh w"
  by (simp add: fresh_def send_ready_def sock_usable_def real_port_def)

text \<open>A program that ends in \<open>clean_request\<close> leaves nothing for what follows it.\<close>

lemma cleaned_seq_post:
  assumes "cleaned v r w'" and "\<And>r w'. cleaned v r w' \<Longrightarrow> Q r w'"
  shows "seq_post f Q r w'"
proof (cases r)
  case (Ret x)
  then show ?thesis using assms(1) by (simp add: cleaned_def split: if_splits)
next
  case (Exit n)
  then have "cleaned v (Exit n) w'" using assms(1) by (simp add: cleaned_def split: if_splits)
  then show ?thesis using Exit assms(2) by simp
next
  case Thread_Exit
  then have "cleaned v Thread_Exit w'" using assms(1) by (simp add: cleaned_def split: if_splits)
  then show ?thesis using Thread_Exit assms(2) by simp
qed (use assms(1) in \<open>simp_all add: cleaned_def split: if_splits\<close>)

lemma file_blks_leak: "set (file_type_blks env d path) \<inter> core = {}"
  using set_file_type_blks by (auto simp: core_def)

lemma left_over_core: "set (left_over env d path) \<inter> core = {}"
  by (cases "file_class env d path = FILES_IS_DIRECTORY")
    (simp_all add: left_over_def Let_def Int_Un_distrib2 listing_leak_core code_leak_core file_blks_leak)

text \<open>From the end of \<open>clean_request\<close> to the specification.\<close>

lemma cleaned_answered:
  assumes "cleaned v r w'" and "w_args v = (w_args w)\<lparr>type_Request := n\<rparr>"
    and "others v = left_over env (cwd w) path @ others w" and "p_mutex v = p_mutex w"
    and "file_open v = file_open w"
    and "out v = out w @ answer env (cwd w) (ip_buffer w) (port_int (configs (w_args w))) path sel"
    and "(if n \<noteq> 0 then Suc (closes v) else closes v) =
      (if file_class env (cwd w) path = FILES_IS_UNMANAGED_FILE then closes w else Suc (closes w))"
    and "plog v = plog w @ (if file_class env (cwd w) path = FILES_IS_REG_FILE
      then [log_of w path (int (length (the (os_mmap env path))))] else [])"
  shows "answered env w path sel r w'"
  using assms holds_none [of w'] by (auto simp: cleaned_def answered_def Let_def)

text \<open>The part of \<open>socket_manage_files\<close> behind the error response, for a file of type \<open>t\<close>.\<close>

definition serve :: "os \<Rightarrow> string \<Rightarrow> int \<Rightarrow> (world, unit) prog" where
  "serve env path t =
     bindM (getGopherCode env path) (\<lambda>code.
     thenM (if code < 0 then clean_request True True else retM ())
     (if FILES_IS_DIRECTORY = t then
        thenM (set_type_Request 1)
        (bindM (getM (\<lambda>w. port_int (configs (w_args w)))) (\<lambda>port.
         thenM (print_directory (os_opendir env) (getGopherCode env) path socket_send_message port) (retM ())))
      else if FILES_IS_REG_FILE = t then
        thenM (set_type_Request 0)
        (bindM (linux_memory_mapping env path) (\<lambda>map_size.
         if map_size < 0 then retM ()
         else socket_pipe_log_server_single_process path map_size))
      else retM ()))"

lemma manage_files_parts:
  fixes env path w
  defines "t \<equiv> file_class env (cwd w) path"
    and "v \<equiv> w\<lparr>live := file_type_blks env (cwd w) path @ live w\<rparr>"
  shows "wp (socket_manage_files env path sel) Q w =
    (if t = FILES_NOT_EXIST \<or> t = FILES_NOT_PERMITTED
     then wp (socket_send_error_to_client path sel :: (world, unit) prog)
            (seq_post (\<lambda>_. serve env path t) Q)
            (v\<lparr>w_args := (w_args w)\<lparr>type_Request := 1\<rparr>\<rparr>)
     else wp (serve env path t) Q v)"
proof (cases "t = FILES_NOT_EXIST \<or> t = FILES_NOT_PERMITTED")
  case True
  then have "FILES_NOT_EXIST = t \<or> t = FILES_NOT_PERMITTED" by auto
  with True show ?thesis
    unfolding socket_manage_files_def serve_def [symmetric] v_def
    by (simp only: wp_bindM wp_file_type seq_post.simps t_def [symmetric] if_True simp_thms
        wp_thenM wp_set_type_Request) simp
next
  case False
  then have "\<not> (FILES_NOT_EXIST = t \<or> t = FILES_NOT_PERMITTED)" by auto
  with False show ?thesis
    unfolding socket_manage_files_def serve_def [symmetric] v_def
    by (simp only: wp_bindM wp_file_type seq_post.simps t_def [symmetric] if_False retM_then)
qed

lemma manage_files_error:
  assumes "holds {Blk_Ip, Blk_Args, Blk_Buf, Blk_Path} w" and "fresh w"
    and "file_class env (cwd w) path = FILES_NOT_EXIST \<or> file_class env (cwd w) path = FILES_NOT_PERMITTED"
  shows "wp (thenM (socket_manage_files env path sel) (clean_request True True :: (world, unit) prog)) (answered env w path sel) w"
proof -
  let ?t = "file_class env (cwd w) path"
  let ?w = "w\<lparr>live := file_type_blks env (cwd w) path @ live w, w_args := (w_args w)\<lparr>type_Request := 1\<rparr>\<rparr>"
  let ?v = "?w\<lparr>out := out w @ error_line sel (port_int (configs (w_args w)))\<rparr>"
  have t: "?t \<noteq> FILES_IS_UNMANAGED_FILE" "?t \<noteq> FILES_IS_REG_FILE"
    using assms(3) by (auto simp: file_types)
  have err: "wp (socket_send_error_to_client path sel) (cleaned ?v) ?w"
    using error_to_client_sends [of ?w path sel] assms(1,2) file_blks_leak
    by (simp add: owns_leak fresh_def send_ready_def sock_usable_def real_port_def)
  have fin: "answered env w path sel r w'" if "cleaned ?v r w'" for r :: "unit res" and w'
    using that
    by (rule cleaned_answered [where n = 1])
      (use t assms(3) file_blks_leak in
        \<open>auto simp: answer_def Let_def left_over_def others_leak file_types\<close>)
  have "wp (socket_send_error_to_client path sel) (seq_post f (seq_post g (answered env w path sel))) ?w"
    for f :: "unit \<Rightarrow> (world, unit) prog" and g :: "unit \<Rightarrow> (world, unit) prog"
    by (rule wp_mono [OF err]) (erule cleaned_seq_post, erule cleaned_seq_post, rule fin)
  then show ?thesis using assms(3) by (simp add: wp_thenM manage_files_parts)
qed

text \<open>A served file: first its item type is looked up, and its code is not negative.\<close>

lemma serve_code:
  assumes "oom w = []" and "item_code env path = Ret n" and "0 \<le> n"
  shows "wp (serve env path t) Q w \<longleftrightarrow>
       wp (if FILES_IS_DIRECTORY = t then
        thenM (set_type_Request 1)
        (bindM (getM (\<lambda>w. port_int (configs (w_args w)))) (\<lambda>port.
         thenM (print_directory (os_opendir env) (getGopherCode env) path socket_send_message port) (retM ())))
      else if FILES_IS_REG_FILE = t then
        thenM (set_type_Request 0)
        (bindM (linux_memory_mapping env path) (\<lambda>map_size.
         if map_size < 0 then retM ()
         else socket_pipe_log_server_single_process path map_size))
      else retM ()) Q (w\<lparr>live := code_leak env path @ live w\<rparr>)"
proof -
  have "\<not> n < 0" using assms(3) by simp
  then show ?thesis
    using getGopherCode_run [OF assms(1), of env path] assms(2)
    unfolding serve_def by (simp only: wp_def bindM_def split if_False retM_then res.case prod.case)
qed

lemma manage_files_directory:
  assumes "holds {Blk_Ip, Blk_Args, Blk_Buf, Blk_Path} w" and "fresh w"
    and "file_class env (cwd w) path = FILES_IS_DIRECTORY" and "healthy env (cwd w) path"
  shows "wp (thenM (socket_manage_files env path sel) (clean_request True True :: (world, unit) prog))
    (answered env w path sel) w"
proof -
  let ?l = "code_leak env path"
  let ?v = "w\<lparr>live := file_type_blks env (cwd w) path @ live w\<rparr>"
  let ?port = "port_int (configs (w_args w))"
  have t: "FILES_IS_DIRECTORY \<noteq> FILES_NOT_EXIST" "FILES_IS_DIRECTORY \<noteq> FILES_NOT_PERMITTED"
    "FILES_IS_DIRECTORY \<noteq> FILES_IS_REG_FILE" "FILES_IS_DIRECTORY \<noteq> FILES_IS_UNMANAGED_FILE"
    by (simp_all add: file_types)
  obtain n where n: "item_code env path = Ret n" "0 \<le> n"
    using assms(3,4) t by (auto simp: healthy_def)
  obtain es where es: "os_opendir env path = Some es"
    and codes: "\<And>f. f \<in> set es \<Longrightarrow> visible f \<Longrightarrow>
      \<exists>n. item_code env (path @ ''/'' @ f) = Ret n \<and> n \<noteq> - 1"
    using assms(3,4) by (auto simp: healthy_def)
  have "oom ?v = []" using assms(2) by (simp add: fresh_def)
  note serve = serve_code [OF this n, of FILES_IS_DIRECTORY, simplified]
  let ?u = "?v\<lparr>live := ?l @ live ?v, w_args := (w_args w)\<lparr>type_Request := 1\<rparr>\<rparr>"
  let ?k = "listing_leak (code_leak env) path es"
  let ?z = "?u\<lparr>out := out w @ listing (item_code env) path (ip_buffer w) ?port es, live := ?k @ live ?u\<rparr>"
  have ready: "send_ready ?u" "oom ?u = []" "0 \<le> ?port" "?port < 65536"
    using assms(2) by (auto simp: fresh_def send_ready_def sock_usable_def real_port_def)
  have k: "print_directory (os_opendir env) (getGopherCode env) path socket_send_message ?port ?u = (Ret 0, ?z)"
    using linux_list.print_entries_lists [OF ready, of es env path] codes es
    by (simp add: print_directory_def)
  have "holds {Blk_Ip, Blk_Args, Blk_Buf, Blk_Path} ?z"
    using assms(1) code_leak_core listing_leak_core file_blks_leak by (simp add: owns_leak)
  then have "wp (clean_request True True :: (world, unit) prog) (cleaned ?z) ?z" by (rule clean_here)
  then have "wp (clean_request True True :: (world, unit) prog) (answered env w path sel) ?z"
  proof (rule wp_mono)
    fix r :: "unit res" and w' assume "cleaned ?z r w'"
    then show "answered env w path sel r w'"
      by (rule cleaned_answered [where n = 1])
        (use assms(3) es t code_leak_core listing_leak_core file_blks_leak in
          \<open>auto simp: answer_def Let_def left_over_def others_leak\<close>)
  qed
  then show ?thesis
    by (simp add: wp_thenM manage_files_parts assms(3) t serve wp_set_type_Request wp_bindM
        wp_run [where m = "print_directory (os_opendir env) (getGopherCode env) path socket_send_message ?port", OF k [simplified]])
qed

lemma manage_files_regular:
  assumes "holds {Blk_Ip, Blk_Args, Blk_Buf, Blk_Path} w" and "fresh w"
    and "file_class env (cwd w) path = FILES_IS_REG_FILE" and "healthy env (cwd w) path"
  shows "wp (thenM (socket_manage_files env path sel) (clean_request True True :: (world, unit) prog))
    (answered env w path sel) w"
proof -
  let ?l = "code_leak env path"
  let ?v = "w\<lparr>live := file_type_blks env (cwd w) path @ live w\<rparr>"
  have t: "FILES_IS_REG_FILE \<noteq> FILES_NOT_EXIST" "FILES_IS_REG_FILE \<noteq> FILES_NOT_PERMITTED"
    "FILES_IS_DIRECTORY \<noteq> FILES_IS_REG_FILE" "FILES_IS_REG_FILE \<noteq> FILES_IS_UNMANAGED_FILE"
    by (simp_all add: file_types)
  obtain n where n: "item_code env path = Ret n" "0 \<le> n"
    using assms(3,4) t by (auto simp: healthy_def)
  obtain c where c: "os_open env path" "os_fstat env path = Some (length c)" "os_mmap env path = Some c"
      "c \<noteq> []" "length c < 2 ^ 31" "os_thread env"
    using assms(3,4) by (auto simp: healthy_def)
  have "oom ?v = []" using assms(2) by (simp add: fresh_def)
  note serve = serve_code [OF this n, of FILES_IS_REG_FILE, simplified t, simplified]
  let ?u = "?v\<lparr>live := ?l @ live ?v, w_args := (w_args w)\<lparr>type_Request := 0\<rparr>\<rparr>"
  have "send_ready ?u" "\<not> p_mutex ?u" "\<not> file_lock ?u" "File_Locked \<notin> obstacles ?u"
    using assms(2) by (auto simp: fresh_def send_ready_def sock_usable_def)
  note map = mapping_sends [OF c(1-6) this]
  let ?x = "?u\<lparr>out := out w @ c, closes := Suc (closes w), file_open := False, file_lock := False\<rparr>"
  let ?z = "?x\<lparr>plog := plog w @ [log_of w path (int (length c))]\<rparr>"
  have "holds {Blk_Ip, Blk_Args, Blk_Buf, Blk_Path} ?z"
    using assms(1) code_leak_core file_blks_leak by (simp add: owns_leak)
  then have "wp (clean_request True True :: (world, unit) prog) (cleaned ?z) ?z" by (rule clean_here)
  then have fin: "wp (clean_request True True :: (world, unit) prog) (answered env w path sel) ?z"
  proof (rule wp_mono)
    fix r :: "unit res" and w' assume "cleaned ?z r w'"
    then show "answered env w path sel r w'"
      by (rule cleaned_answered [where n = 0])
        (use assms(2,3) c t code_leak_core file_blks_leak in
          \<open>auto simp: answer_def Let_def left_over_def others_leak fresh_def\<close>)
  qed
  have log: "socket_pipe_log_server_single_process path (int (length c)) ?x = (Ret (), ?z)"
    using assms(2) fresh_obstacles [OF assms(2)]
    by (simp add: socket_pipe_log_server_single_process_def bindM_def thenM_def call_runs log_of_def fresh_def)
  show ?thesis
    using fin
    by (simp add: wp_thenM manage_files_parts assms(3) t serve wp_set_type_Request wp_bindM
        wp_run [where m = "linux_memory_mapping env path", OF map [simplified]]
        wp_run [where m = "socket_pipe_log_server_single_process path (int (length c))", OF log [simplified]])
qed

lemma manage_files_unmanaged:
  assumes "holds {Blk_Ip, Blk_Args, Blk_Buf, Blk_Path} w" and "fresh w"
    and "file_class env (cwd w) path = FILES_IS_UNMANAGED_FILE" and "healthy env (cwd w) path"
  shows "wp (thenM (socket_manage_files env path sel) (clean_request True True :: (world, unit) prog))
    (answered env w path sel) w"
proof -
  let ?v = "w\<lparr>live := file_type_blks env (cwd w) path @ live w\<rparr>"
  have t: "FILES_IS_UNMANAGED_FILE \<noteq> FILES_NOT_EXIST" "FILES_IS_UNMANAGED_FILE \<noteq> FILES_NOT_PERMITTED"
    "FILES_IS_DIRECTORY \<noteq> FILES_IS_UNMANAGED_FILE" "FILES_IS_REG_FILE \<noteq> FILES_IS_UNMANAGED_FILE"
    by (simp_all add: file_types)
  obtain n where n: "item_code env path = Ret n" "0 \<le> n"
    using assms(3,4) t by (auto simp: healthy_def)
  have "oom ?v = []" using assms(2) by (simp add: fresh_def)
  note serve = serve_code [OF this n, of FILES_IS_UNMANAGED_FILE, simplified t, simplified]
  let ?z = "?v\<lparr>live := code_leak env path @ live ?v\<rparr>"
  have "holds {Blk_Ip, Blk_Args, Blk_Buf, Blk_Path} ?z"
    using assms(1) code_leak_core file_blks_leak by (simp add: owns_leak)
  then have "wp (clean_request True True :: (world, unit) prog) (cleaned ?z) ?z" by (rule clean_here)
  then have "wp (clean_request True True :: (world, unit) prog) (answered env w path sel) ?z"
  proof (rule wp_mono)
    fix r :: "unit res" and w' assume "cleaned ?z r w'"
    then show "answered env w path sel r w'"
      by (rule cleaned_answered [where n = 0])
        (use assms(2,3) t code_leak_core file_blks_leak in
          \<open>auto simp: answer_def Let_def left_over_def others_leak fresh_def\<close>)
  qed
  then show ?thesis
    by (simp add: wp_thenM manage_files_parts assms(3) t serve)
qed

lemma manage_files_answered:
  assumes "holds {Blk_Ip, Blk_Args, Blk_Buf, Blk_Path} w" and "fresh w" and "healthy env (cwd w) path"
  shows "wp (thenM (socket_manage_files env path sel) (clean_request True True :: (world, unit) prog))
    (answered env w path sel) w"
  using file_class_range [of env "cwd w" path] manage_files_error [OF assms(1,2)]
    manage_files_directory [OF assms(1,2) _ assms(3)] manage_files_regular [OF assms(1,2) _ assms(3)]
    manage_files_unmanaged [OF assms(1,2) _ assms(3)]
  by blast

lemma answered_upd [simp]:
  "others (w\<lparr>live := l\<rparr>) = others w \<Longrightarrow> answered env (w\<lparr>live := l\<rparr>) = answered env w"
  "answered env (w\<lparr>rx := r\<rparr>) = answered env w"
  by (intro ext, simp add: answered_def log_of_def)+

lemma fresh_upd [simp]: "fresh (w\<lparr>live := l\<rparr>) = fresh w" "fresh (w\<lparr>rx := r\<rparr>) = fresh w"
  by (simp_all add: fresh_def send_ready_def sock_usable_def real_port_def)

lemma resolve_selector_run:
  assumes "oom w = []" and "root_dir (configs (w_args w)) \<noteq> []"
    and "length (root_dir (configs (w_args w))) < BUFFER_SIZE"
  shows "socket_resolve_selector sel w =
    (Ret (Some (resolved (root_dir (configs (w_args w))) sel)), w\<lparr>live := Blk_Path # live w\<rparr>)"
proof -
  have "wp (socket_resolve_selector sel) (\<lambda>r w'.
     r = Ret (Some (resolved (root_dir (configs (w_args w))) sel)) \<and> w' = w\<lparr>live := Blk_Path # live w\<rparr>) w"
    using assms by (simp add: socket_resolve_selector_def wp_rules array_str_def free_codes)
  then show ?thesis by (simp add: wp_fst_snd prod_eq_iff)
qed

lemma handle_request_answered:
  fixes env w sel
  defines "path \<equiv> resolved (root_dir (configs (w_args w))) sel"
  assumes "holds {Blk_Ip, Blk_Args} w" and "fresh w" and "list_all segment (rx w)"
    and "payload (rx w) = sel @ CR # NL # rest" and "length (payload (rx w)) < BUFFER_SIZE"
    and "NL \<notin> set sel" and "nul_free sel"
    and "root_dir (configs (w_args w)) \<noteq> []" and "length (root_dir (configs (w_args w))) < BUFFER_SIZE"
    and "healthy env (cwd w) path"
  shows "wp (handle_request env) (answered env w path sel) w"
proof -
  let ?w1 = "\<lambda>r. w\<lparr>live := Blk_Buf # live w, rx := r\<rparr>"
  let ?w2 = "\<lambda>r. ?w1 r\<lparr>live := Blk_Path # Blk_Buf # live w\<rparr>"
  have "wp socket_read_request (reads (payload (rx w)) (w\<lparr>live := Blk_Buf # live w\<rparr>)) w"
    using assms by (intro read_request_segments) (auto simp: fresh_def send_ready_def)
  moreover have "request_of (payload (rx w)) = Ret sel"
    using assms by (simp add: request_of_line)
  ultimately obtain b r where read: "socket_read_request w = (Ret (0, b), ?w1 r)" and b: "cstr b = sel"
    by (cases "socket_read_request w") (auto simp: wp_def reads_def split: res.splits)
  have resolve: "socket_resolve_selector sel (?w1 r) = (Ret (Some path), ?w2 r)"
    using resolve_selector_run [of "?w1 r" sel] assms by (simp add: path_def fresh_def)
  have "owns (insert Blk_Path (insert Blk_Buf {Blk_Ip, Blk_Args})) (Blk_Path # Blk_Buf # live w)"
    using assms(2) by (intro owns_alloc) (auto simp: core_def)
  then have "wp (thenM (socket_manage_files env path sel) (clean_request True True :: (world, unit) prog))
      (answered env (?w2 r) path sel) (?w2 r)"
    using assms by (intro manage_files_answered) (auto simp: insert_commute)
  then have "wp (thenM (socket_manage_files env path sel) (clean_request True True :: (world, unit) prog))
      (answered env w path sel) (?w2 r)" by (simp add: in_core)
  then show ?thesis
    unfolding handle_request_def
    by (simp add: wp_bindM [of socket_read_request] wp_run [where m = socket_read_request, OF read] b
        wp_bindM [of "socket_resolve_selector sel"] wp_run [where m = "socket_resolve_selector sel", OF resolve])
qed

section \<open>Properties\<close>

text \<open>Claim C3. What the server is for: a request with a complete line, for a path on which no
  system call fails (\<open>healthy\<close>: a regular file has 1 byte to less than 2 GiB) and while nothing waits
  for ever, gets exactly the bytes its path is worth (a
  menu for a directory, the contents of a file, an error line for anything missing or forbidden,
  nothing for a FIFO or a character device), however it arrives. A delivered file is logged once. The connection is
  closed once, except for such an unmanaged file: then it is never closed. The handler's own five
  blocks are freed, and what stays allocated is exactly \<open>left_over\<close>: the blocks of \<open>realpath\<close>,
  and those of the item types that could not be told.\<close>

theorem handle_request_refines:
  assumes "holds {Blk_Ip, Blk_Args} w" and "fresh w" and "list_all segment (rx w)"
    and "payload (rx w) = sel @ CR # NL # rest" and "length (payload (rx w)) < BUFFER_SIZE"
    and "NL \<notin> set sel" and "nul_free sel"
    and "root_dir (configs (w_args w)) \<noteq> []" and "length (root_dir (configs (w_args w))) < BUFFER_SIZE"
    and "healthy env (cwd w) (resolved (root_dir (configs (w_args w))) sel)"
  shows "wp (handle_request env) (answered env w (resolved (root_dir (configs (w_args w))) sel) sel) w"
  using assms by (rule handle_request_answered)

lemma small_file_code: "item_code (small_file c) p = Ret (chr (CHR ''0''))"
proof -
  have "strtok_r (''text'' @ CHR ''/'' # ''plain'' @ [NL]) ''/'' = (Some ''text'', ''plain'' @ [NL])"
    "fst (strtok_r (''plain'' @ [NL]) [NL]) = Some ''plain''"
    using strtok_mime [of "''text''" "''plain''"] by simp_all
  then show ?thesis
    by (simp add: item_code_def strncmp_eq_def not_found_respond_def subtype_dict_def type_dict_def)
qed

lemma small_file_class: "basename p \<noteq> log_file_name \<Longrightarrow> file_class (small_file c) d p = FILES_IS_REG_FILE"
  by (simp add: file_class_def formats black_listed_def)

lemma client_world_fresh: "fresh (client_world evs)"
  by (simp add: fresh_def real_port_def port_int_def)

theorem handle_request_refines_witness:
  "\<exists>w w'. handle_request (small_file ''hello'') w = (Thread_Exit, w') \<and> out w' = ''hello'' \<and>
     closes w' = 1 \<and> length (plog w') = 1"
proof -
  let ?w = "client_world [Rx_Data ''/'', Rx_Intr, Rx_Data (''a'' @ [CR]), Rx_Data [NL]]"
  have p: "resolved ''/srv'' ''/a'' = ''/srv/a''" by (simp add: resolved_def OS_SEPARATOR_def)
  have "basename (''/srv'' @ CHR ''/'' # ''a'') = ''a''" by (rule basename_last) simp_all
  then have "basename ''/srv/a'' \<noteq> log_file_name" by (simp add: log_file_name_def)
  note cls = small_file_class [OF this, of "''hello''" "''/srv/build''"]
  have "wp (handle_request (small_file ''hello''))
      (answered (small_file ''hello'') ?w (resolved (root_dir (configs (w_args ?w))) ''/a'') ''/a'') ?w"
    by (rule handle_request_refines [where rest = "[]"])
      (simp_all add: client_world_fresh BUFFER_SIZE_def p healthy_def cls small_file_code file_types)
  then show ?thesis
    by (intro exI [of _ ?w] exI [of _ "snd (handle_request (small_file ''hello'') ?w)"])
      (simp add: wp_fst_snd answered_def p answer_def cls file_types prod_eq_iff Let_def)
qed



text \<open>\<open>DOS_PROTECTION\<close> does not close the connection at once, as its comment says: a
  request that is too long is answered with the error message all the same.\<close>

theorem dos_protection_still_answers:
  assumes "holds {Blk_Ip, Blk_Args} w" and "fresh w" and "DOS_PROTECTION w \<noteq> 0"
    and "rx w = Rx_Data (take BUFFER_SIZE bytes) # rest" and "BUFFER_SIZE \<le> length bytes"
    and "root_dir (configs (w_args w)) \<noteq> []" and "length (root_dir (configs (w_args w))) < BUFFER_SIZE"
  shows "out (snd (handle_request env w)) = out w @ too_long_text (port_int (configs (w_args w))) \<and>
    closes (snd (handle_request env w)) = Suc (closes w)"
proof -
  let ?port = "port_int (configs (w_args w))"
  let ?args = "(w_args w)\<lparr>type_Request := 1\<rparr>"
  let ?w1 = "w\<lparr>live := Blk_Buf # live w, rx := rest, w_args := ?args\<rparr>"
  let ?w2 = "w\<lparr>live := Blk_Path # Blk_Buf # live w, rx := rest, w_args := ?args\<rparr>"
  let ?w3 = "?w2\<lparr>out := out w @ too_long_text ?port\<rparr>"
  obtain b where read: "socket_read_request w = (Ret (- 2, b), ?w1)"
    using read_request_full [of w bytes rest] assms by (auto simp: fresh_def send_ready_def)
  have resolve: "socket_resolve_selector (cstr b) ?w1 =
      (Ret (Some (resolved (root_dir (configs (w_args w))) (cstr b))), ?w2)"
    using resolve_selector_run [of ?w1 "cstr b"] assms by (simp add: fresh_def)
  have "owns (insert Blk_Path (insert Blk_Buf {Blk_Ip, Blk_Args})) (Blk_Path # Blk_Buf # live w)"
    using assms(1) by (intro owns_alloc) (auto simp: core_def)
  then have clean: "wp (clean_request True True) (cleaned ?w3) ?w3"
    by (intro clean_here) (simp add: insert_commute)
  have "tx w = []" "sock_usable w" "Client_Stalled \<notin> obstacles w"
    using assms(2) by (auto simp: fresh_def send_ready_def)
  then have "wp (socket_send_too_long_error_to_client True) (cleaned ?w3) ?w2"
    using clean unfolding socket_send_too_long_error_to_client_def
    by (simp add: wp_rules too_long_fits sock_usable_def)
  then have "wp (handle_request env) (\<lambda>r w'. \<exists>r' :: unit res. cleaned ?w3 r' w') w"
    unfolding handle_request_def
    by (simp add: wp_bindM [of socket_read_request] wp_run [where m = socket_read_request, OF read]
        wp_bindM [of "socket_resolve_selector (cstr b)"] wp_thenM
        wp_run [where m = "socket_resolve_selector (cstr b)", OF resolve [simplified]])
      (erule wp_mono, erule cleaned_seq_post, blast)
  then show ?thesis by (auto simp: wp_fst_snd cleaned_def)
qed

theorem dos_protection_still_answers_witness:
  "\<exists>w. DOS_PROTECTION w = 1 \<and> out (snd (handle_request (small_file []) w)) = too_long_text 70"
proof -
  let ?bytes = "replicate BUFFER_SIZE (CHR ''x'')"
  let ?w = "(client_world [Rx_Data ?bytes])\<lparr>DOS_PROTECTION := 1\<rparr>"
  have "fresh ?w" using client_world_fresh [of "[Rx_Data ?bytes]"]
    by (simp add: fresh_def send_ready_def sock_usable_def real_port_def)
  then have "out (snd (handle_request (small_file []) ?w)) = out ?w @ too_long_text (port_int (configs (w_args ?w))) \<and>
      closes (snd (handle_request (small_file []) ?w)) = Suc (closes ?w)"
    by (intro dos_protection_still_answers [where bytes = ?bytes and rest = "[]"])
      (simp_all add: BUFFER_SIZE_def)
  then show ?thesis by (intro exI [of _ ?w]) (simp add: port_int_def)
qed

text \<open>In thread mode a request that fails before its type is known leaves the connection
  open for ever: when the client closes without a byte, the thread ends and the descriptor is
  never closed.\<close>

theorem empty_request_leaks_descriptor:
  assumes "holds {Blk_Ip, Blk_Args} w" and "fresh w" and "rx w = []"
    and "Client_Silent \<notin> obstacles w" and "mode_concurrency (configs (w_args w)) = M_THREAD"
  shows "fst (handle_request env w) = Thread_Exit \<and> closes (snd (handle_request env w)) = closes w \<and>
    out (snd (handle_request env w)) = out w"
proof -
  let ?w1 = "w\<lparr>live := Blk_Buf # live w\<rparr>"
  have u: "sock_usable ?w1" "rx ?w1 = []"
    using assms(2,3) by (auto simp: fresh_def send_ready_def sock_usable_def)
  then have r: "recvM (BUFFER_SIZE - 0) ?w1 = (Ret (Got []), ?w1)"
    using assms(4) by (simp add: recvM_def)
  have "owns (insert Blk_Buf {Blk_Ip, Blk_Args}) (Blk_Buf # live w)"
    using assms(1) by (intro owns_alloc) (auto simp: core_def)
  then have "wp (clean_request False True) (cleaned ?w1) ?w1"
    by (intro clean_request_cleaned [where B = "{Blk_Ip, Blk_Args, Blk_Buf}"]) (auto simp: insert_commute)
  then have "wp socket_read_request (cleaned ?w1) w"
    using read_step [OF r, of clean_request "replicate (BUFFER_SIZE + 1) NUL"] assms(2)
    by (simp add: wp_def read_request_run fresh_def del: replicate_Suc)
  then have "wp (handle_request env) (\<lambda>r w'. r = Thread_Exit \<and> (\<exists>r' :: unit res. cleaned ?w1 r' w')) w"
    unfolding handle_request_def wp_bindM
    by (rule wp_mono) (erule cleaned_seq_post, use assms(5) in \<open>auto simp: cleaned_def\<close>)
  then show ?thesis using assms(2) by (auto simp: wp_fst_snd cleaned_def fresh_def)
qed

theorem empty_request_leaks_descriptor_witness:
  "fst (handle_request (small_file []) (client_world [])) = Thread_Exit \<and>
   closes (snd (handle_request (small_file []) (client_world []))) = 0"
  using empty_request_leaks_descriptor [of "client_world []" "small_file []"] client_world_fresh by simp

text \<open>A client that connects and then neither sends nor closes keeps its thread or process, its
  connection and the request's blocks for ever: \<open>recv\<close> has no time limit.\<close>

theorem silent_client_waits:
  assumes "holds {Blk_Ip, Blk_Args} w" and "oom w = []" and "sock_usable w" and "rx w = []"
    and "Client_Silent \<in> obstacles w"
  shows "handle_request env w = (Blocked, w\<lparr>live := Blk_Buf # live w\<rparr>)"
proof -
  let ?w = "w\<lparr>live := Blk_Buf # live w\<rparr>"
  have "recvM (BUFFER_SIZE - 0) ?w = (Blocked, ?w)"
    using assms(3-5) by (simp add: recvM_def sock_usable_def)
  note run = loops_blocked(2) [OF this]
  show ?thesis
    unfolding handle_request_def bindM_def read_request_run [OF assms(2)] run by simp
qed

theorem silent_client_waits_witness:
  "\<exists>w w'. rx w = [] \<and> handle_request (small_file []) w = (Blocked, w') \<and> closes w' = 0"
proof -
  let ?w = "(client_world [])\<lparr>obstacles := {Client_Silent}\<rparr>"
  have "sock_usable ?w" using client_world_simps(4) by (simp add: sock_usable_def)
  then show ?thesis
    using silent_client_waits [of ?w "small_file []"]
    by (intro exI [of _ ?w] exI [of _ "?w\<lparr>live := Blk_Buf # live ?w\<rparr>"]) simp
qed

end
