(* ===== verification/LogPipe.thy ===== *)
theory LogPipe
  imports Request
begin

text \<open>
  \<open>linux/lib/pipe/linux_pipe.c\<close>: the log process and its protocol with the request handlers.

  \<^item> \<open>socket_pipe_single_process\<close> forks one log process that loops for ever; every handler of a
    regular file runs \<open>socket_pipe_log_server_single_process\<close>. Both sides are step relations over
    one state, one rule per system call: the mutex and the condition variable in shared memory,
    the pipe of the log messages, and the pipe of the one-byte tokens.
  \<^item> \<open>log_step\<close> interleaves them in every order; \<open>arrive\<close> is a handler that starts. The ghost field
    \<open>wrote\<close> lists the handlers in the order in which they wrote their messages.
  \<^item> \<open>log_inv\<close> is the invariant, shown through the \<open>step_system\<close> contract. It gives mutual
    exclusion, no lost signal, every message logged once and in order, and freedom from deadlock.
  \<^item> Two more results say where the protocol fails: a spurious wakeup of \<open>pthread_cond_wait\<close>, and
    the descriptor of the log file, which is opened for every message and never closed.
\<close>

section \<open>Messages of the variants with one process per message\<close>

definition multi_text :: "string \<Rightarrow> int \<Rightarrow> string \<Rightarrow> string" where
  "multi_text path sz ip =
     ''FileName: '' @ path @ [TAB] @ show_int sz @ '' Byte '' @ [TAB] @ '' IP Client: '' @ ip"

text \<open>The bytes that the sender writes: its array of \<open>2 * BUFFER_SIZE\<close> characters, of which those
  behind the NUL (\<open>junk\<close>) are not initialised.\<close>

definition socket_pipe_log_child :: "string \<Rightarrow> string \<Rightarrow> int \<Rightarrow> string \<Rightarrow> int \<Rightarrow> char list" where
  "socket_pipe_log_child junk path dim_file_to_send ip port =
     (let message = snprintf_text (BUFFER_SIZE * 2)
        (multi_text path dim_file_to_send ip @ '' Port: '' @ show_int port @ [NL])
      in take (BUFFER_SIZE * 2) (message @ NUL # junk))"

text \<open>The receiver ends with -1 when the log file cannot be opened; otherwise it appends a line.\<close>

definition socket_pipe_log_father :: "bool \<Rightarrow> char list \<Rightarrow> string \<Rightarrow> string res" where
  "socket_pipe_log_father log_opens bytes log =
     (if \<not> log_opens then Exit (- 1)
      else Ret (log @ ''L -> '' @ cstr bytes))"

lemma cstr_array:
  assumes "nul_free t" and "length t < n"
  shows "cstr (take n (t @ NUL # junk)) = t"
proof -
  obtain k where "n - length t = Suc k" using assms(2) by (metis Suc_diff_Suc)
  then show ?thesis using assms by simp
qed

definition socket_pipe_log_server :: "string \<Rightarrow> int \<Rightarrow> string \<Rightarrow> char list" where
  "socket_pipe_log_server path dim_file_to_send ip =
     (let message = snprintf_text (BUFFER_SIZE * 2) (multi_text path dim_file_to_send ip)
      in message @ replicate (BUFFER_SIZE * 2 - length message) NUL)"

section \<open>The single log process\<close>

subsection \<open>Setting up\<close>

text \<open>The calls of \<open>socket_pipe_single_process\<close> in their order, each with the status of the
  \<open>exit\<close> that follows its failure; \<open>calls\<close> says which of them succeed.\<close>

definition setup_exits :: "int list" where
  "setup_exits = [1, - 1, 1,  1, - 1, 1,  1, - 1, 1,  - 1, - 1, - 1]"

fun run_setup :: "(int \<times> bool) list \<Rightarrow> unit res" where
  "run_setup [] = Ret ()"
| "run_setup ((status, ok) # calls) = (if ok then run_setup calls else Exit status)"

definition socket_pipe_single_process :: "bool list \<Rightarrow> unit res" where
  "socket_pipe_single_process calls = run_setup (zip setup_exits calls)"

subsection \<open>The state of both sides\<close>

text \<open>The line that \<open>dprintf (fd_log, "L->  %s\n", message)\<close> writes.\<close>

definition log_line :: "string \<Rightarrow> string" where
  "log_line m = ''L->  '' @ m @ [NL]"

datatype child_pc =
    C_Lock               \<comment> \<open>before \<open>pthread_mutex_lock\<close>\<close>
  | C_Token              \<comment> \<open>before writing the token\<close>
  | C_Wait               \<comment> \<open>before \<open>pthread_cond_wait\<close>\<close>
  | C_Waiting            \<comment> \<open>asleep, the mutex released\<close>
  | C_Woken              \<comment> \<open>signalled, before it has the mutex again\<close>
  | C_Open               \<comment> \<open>before opening the log file\<close>
  | C_Read               \<comment> \<open>before reading a message\<close>
  | C_Log string         \<comment> \<open>before writing the message to the log file\<close>
  | C_Unlock             \<comment> \<open>before \<open>pthread_mutex_unlock\<close>\<close>
  | C_Dead               \<comment> \<open>after \<open>exit (-1)\<close>\<close>

datatype server_pc =
    S_Idle               \<comment> \<open>not started\<close>
  | S_Token              \<comment> \<open>before reading the token\<close>
  | S_Lock               \<comment> \<open>before \<open>pthread_mutex_lock\<close>\<close>
  | S_Write              \<comment> \<open>before writing the message\<close>
  | S_Signal             \<comment> \<open>before \<open>pthread_cond_signal\<close>\<close>
  | S_Unlock             \<comment> \<open>before \<open>pthread_mutex_unlock\<close>\<close>
  | S_Done

datatype owner = Child | Server nat

record logsys =
  child :: child_pc
  servers :: "nat \<Rightarrow> server_pc"
  mutex :: "owner option"
  tokens :: nat
  msgs :: "string list"
  log_out :: "string list"
  log_fds :: nat
  wrote :: "nat list"

definition log_init :: logsys where
  "log_init = \<lparr>child = C_Lock, servers = (\<lambda>_. S_Idle), mutex = None, tokens = 0, msgs = [],
     log_out = [], log_fds = 0, wrote = []\<rparr>"

subsection \<open>Steps\<close>

text \<open>The loop of the log process. \<open>limit\<close> is the number of descriptors it can open.\<close>

inductive child_step :: "nat \<Rightarrow> logsys \<Rightarrow> logsys \<Rightarrow> bool" for limit where
  child_lock: "child s = C_Lock \<Longrightarrow> mutex s = None \<Longrightarrow>
    child_step limit s (s\<lparr>child := C_Token, mutex := Some Child\<rparr>)"
| child_token: "child s = C_Token \<Longrightarrow>
    child_step limit s (s\<lparr>child := C_Wait, tokens := Suc (tokens s)\<rparr>)"
| child_wait: "child s = C_Wait \<Longrightarrow>
    child_step limit s (s\<lparr>child := C_Waiting, mutex := None\<rparr>)"
| child_relock: "child s = C_Woken \<Longrightarrow> mutex s = None \<Longrightarrow>
    child_step limit s (s\<lparr>child := C_Open, mutex := Some Child\<rparr>)"
| child_open: "child s = C_Open \<Longrightarrow> log_fds s < limit \<Longrightarrow>
    child_step limit s (s\<lparr>child := C_Read, log_fds := Suc (log_fds s)\<rparr>)"
| child_open_fails: "child s = C_Open \<Longrightarrow> limit \<le> log_fds s \<Longrightarrow>
    child_step limit s (s\<lparr>child := C_Dead\<rparr>)"
| child_read: "child s = C_Read \<Longrightarrow> msgs s = m # rest \<Longrightarrow>
    child_step limit s (s\<lparr>child := C_Log m, msgs := rest\<rparr>)"
| child_log: "child s = C_Log m \<Longrightarrow>
    child_step limit s (s\<lparr>child := C_Unlock, log_out := log_out s @ [log_line m]\<rparr>)"
| child_unlock: "child s = C_Unlock \<Longrightarrow>
    child_step limit s (s\<lparr>child := C_Lock, mutex := None\<rparr>)"

text \<open>A handler; \<open>msg i\<close> is its message. When the log process is dead the token pipe has no
  writer, so the read returns at once.\<close>

inductive server_step :: "(nat \<Rightarrow> string) \<Rightarrow> nat \<Rightarrow> logsys \<Rightarrow> logsys \<Rightarrow> bool" for msg i where
  server_token: "servers s i = S_Token \<Longrightarrow> tokens s = Suc n \<Longrightarrow>
    server_step msg i s (s\<lparr>servers := (servers s)(i := S_Lock), tokens := n\<rparr>)"
| server_eof: "servers s i = S_Token \<Longrightarrow> tokens s = 0 \<Longrightarrow> child s = C_Dead \<Longrightarrow>
    server_step msg i s (s\<lparr>servers := (servers s)(i := S_Lock)\<rparr>)"
| server_lock: "servers s i = S_Lock \<Longrightarrow> mutex s = None \<Longrightarrow>
    server_step msg i s (s\<lparr>servers := (servers s)(i := S_Write), mutex := Some (Server i)\<rparr>)"
| server_write: "servers s i = S_Write \<Longrightarrow>
    server_step msg i s (s\<lparr>servers := (servers s)(i := S_Signal), msgs := msgs s @ [msg i],
      wrote := wrote s @ [i]\<rparr>)"
| server_signal: "servers s i = S_Signal \<Longrightarrow>
    server_step msg i s (s\<lparr>servers := (servers s)(i := S_Unlock),
      child := (if child s = C_Waiting then C_Woken else child s)\<rparr>)"
| server_unlock: "servers s i = S_Unlock \<Longrightarrow>
    server_step msg i s (s\<lparr>servers := (servers s)(i := S_Done), mutex := None\<rparr>)"

definition log_step :: "nat \<Rightarrow> (nat \<Rightarrow> string) \<Rightarrow> logsys \<Rightarrow> logsys \<Rightarrow> bool" where
  "log_step limit msg s t \<longleftrightarrow> child_step limit s t \<or> (\<exists>i. server_step msg i s t)"

inductive arrive :: "logsys \<Rightarrow> logsys \<Rightarrow> bool" where
  "servers s i = S_Idle \<Longrightarrow> arrive s (s\<lparr>servers := (servers s)(i := S_Token)\<rparr>)"

definition log_run :: "nat \<Rightarrow> (nat \<Rightarrow> string) \<Rightarrow> logsys \<Rightarrow> logsys \<Rightarrow> bool" where
  "log_run limit msg s t \<longleftrightarrow> log_step limit msg s t \<or> arrive s t"

text \<open>\<open>pthread_cond_wait\<close> may return without a signal; the code does not test for it.\<close>

inductive spurious :: "logsys \<Rightarrow> logsys \<Rightarrow> bool" where
  "child s = C_Waiting \<Longrightarrow> spurious s (s\<lparr>child := C_Woken\<rparr>)"

section \<open>The invariant\<close>

text \<open>The handlers between their token and their end.\<close>

definition active :: "logsys \<Rightarrow> nat set" where
  "active s = {i. servers s i \<in> {S_Lock, S_Write, S_Signal, S_Unlock}}"

text \<open>Who holds the mutex, by the program counters.\<close>

definition holder_inv :: "logsys \<Rightarrow> bool" where
  "holder_inv s \<longleftrightarrow>
     (mutex s = Some Child \<longleftrightarrow> child s \<notin> {C_Lock, C_Waiting, C_Woken}) \<and>
     (\<forall>i. mutex s = Some (Server i) \<longleftrightarrow> servers s i \<in> {S_Write, S_Signal, S_Unlock})"

text \<open>The round of the protocol, by the log process's program counter: there is one token or one
  active handler from the moment the token is written until the message is signalled.\<close>

definition round_inv :: "(nat \<Rightarrow> string) \<Rightarrow> logsys \<Rightarrow> bool" where
  "round_inv msg s \<longleftrightarrow> (case child s of
       C_Lock \<Rightarrow> tokens s = 0 \<and> active s = {} \<and> msgs s = []
     | C_Token \<Rightarrow> tokens s = 0 \<and> active s = {} \<and> msgs s = []
     | C_Wait \<Rightarrow> msgs s = [] \<and> (tokens s = 1 \<and> active s = {} \<or>
         tokens s = 0 \<and> (\<exists>i. active s = {i} \<and> servers s i = S_Lock))
     | C_Waiting \<Rightarrow> tokens s = 1 \<and> active s = {} \<and> msgs s = [] \<or>
         tokens s = 0 \<and> (\<exists>i. active s = {i} \<and>
           (servers s i \<in> {S_Lock, S_Write} \<and> msgs s = [] \<or> servers s i = S_Signal \<and> msgs s = [msg i]))
     | C_Woken \<Rightarrow> tokens s = 0 \<and> (\<exists>m. msgs s = [m]) \<and>
         (active s = {} \<or> (\<exists>i. active s = {i} \<and> servers s i = S_Unlock))
     | C_Open \<Rightarrow> tokens s = 0 \<and> active s = {} \<and> (\<exists>m. msgs s = [m])
     | C_Read \<Rightarrow> tokens s = 0 \<and> active s = {} \<and> (\<exists>m. msgs s = [m])
     | C_Log m \<Rightarrow> tokens s = 0 \<and> active s = {} \<and> msgs s = []
     | C_Unlock \<Rightarrow> tokens s = 0 \<and> active s = {} \<and> msgs s = []
     | C_Dead \<Rightarrow> tokens s = 0 \<and> (\<exists>m. msgs s = [m]) \<and> (\<forall>i. servers s i \<notin> {S_Write, S_Signal, S_Unlock}))"

text \<open>The message on its way and the log together are what was written, in that order; every
  handler writes at most once.\<close>

definition in_flight :: "logsys \<Rightarrow> string list" where
  "in_flight s = (case child s of C_Log m \<Rightarrow> [m] | _ \<Rightarrow> []) @ msgs s"

definition order_inv :: "(nat \<Rightarrow> string) \<Rightarrow> logsys \<Rightarrow> bool" where
  "order_inv msg s \<longleftrightarrow> map (\<lambda>i. log_line (msg i)) (wrote s) = log_out s @ map log_line (in_flight s) \<and> distinct (wrote s) \<and>
     set (wrote s) = {i. servers s i \<in> {S_Signal, S_Unlock, S_Done}}"

definition log_inv :: "(nat \<Rightarrow> string) \<Rightarrow> logsys \<Rightarrow> bool" where
  "log_inv msg s \<longleftrightarrow> holder_inv s \<and> round_inv msg s \<and> order_inv msg s"

lemma log_inv_init: "log_inv msg log_init"
  by (simp add: log_inv_def holder_inv_def round_inv_def order_inv_def log_init_def active_def in_flight_def)

lemma active_upd [simp]:
  "active (s\<lparr>child := c\<rparr>) = active s" "active (s\<lparr>mutex := m\<rparr>) = active s"
  "active (s\<lparr>tokens := n\<rparr>) = active s" "active (s\<lparr>msgs := q\<rparr>) = active s"
  "active (s\<lparr>log_out := l\<rparr>) = active s" "active (s\<lparr>log_fds := f\<rparr>) = active s"
  "active (s\<lparr>wrote := v\<rparr>) = active s"
  "active (s\<lparr>servers := (servers s)(i := p)\<rparr>) =
     (if p \<in> {S_Lock, S_Write, S_Signal, S_Unlock} then insert i (active s) else active s - {i})"
  by (auto simp: active_def)

lemma mem_active: "i \<in> active s \<longleftrightarrow> servers s i \<in> {S_Lock, S_Write, S_Signal, S_Unlock}"
  by (simp add: active_def)

lemma child_step_inv: "child_step limit s t \<Longrightarrow> log_inv msg s \<Longrightarrow> log_inv msg t"
  by (induction rule: child_step.induct)
    (auto simp: log_inv_def holder_inv_def round_inv_def order_inv_def in_flight_def mem_active)

text \<open>The handlers, one rule at a time. A handler that is active is the only one, which is what
  \<open>round_inv\<close> says for every program counter of the log process.\<close>

lemma round_active:
  assumes "round_inv msg s" and "i \<in> active s" and "child s \<noteq> C_Dead"
  shows "active s = {i} \<and> tokens s = 0"
  using assms by (auto simp: round_inv_def split: child_pc.splits)

lemma round_token:
  assumes "round_inv msg s" and "tokens s = Suc n"
  shows "n = 0 \<and> active s = {} \<and> msgs s = [] \<and> (child s = C_Wait \<or> child s = C_Waiting)"
  using assms by (auto simp: round_inv_def split: child_pc.splits)

lemma round_signal:
  assumes "round_inv msg s" and "holder_inv s" and "servers s i \<in> {S_Write, S_Signal}"
  shows "child s = C_Waiting"
proof -
  have i: "i \<in> active s" using assms(3) by (auto simp: mem_active)
  have "mutex s = Some (Server i)" using assms(2,3) by (auto simp: holder_inv_def)
  then have "child s \<in> {C_Lock, C_Waiting, C_Woken}" using assms(2) by (auto simp: holder_inv_def)
  then show ?thesis
    using i assms(1,3) by (auto simp: round_inv_def)
qed

lemma server_token_inv:
  assumes "log_inv msg s" and "servers s i = S_Token" and "tokens s = Suc n"
  shows "log_inv msg (s\<lparr>servers := (servers s)(i := S_Lock), tokens := n\<rparr>)"
  using assms round_token [of msg s n]
  by (auto simp: log_inv_def holder_inv_def round_inv_def order_inv_def in_flight_def)

lemma server_eof_inv:
  assumes "log_inv msg s" and "servers s i = S_Token" and "child s = C_Dead"
  shows "log_inv msg (s\<lparr>servers := (servers s)(i := S_Lock)\<rparr>)"
  using assms by (auto simp: log_inv_def holder_inv_def round_inv_def order_inv_def in_flight_def)

lemma server_lock_inv:
  assumes "log_inv msg s" and "servers s i = S_Lock" and "mutex s = None"
  shows "log_inv msg (s\<lparr>servers := (servers s)(i := S_Write), mutex := Some (Server i)\<rparr>)"
proof -
  have h: "holder_inv s" and r: "round_inv msg s" and o: "order_inv msg s"
    using assms(1) by (simp_all add: log_inv_def)
  have c: "child s \<in> {C_Lock, C_Waiting, C_Woken}" using h assms(3) by (auto simp: holder_inv_def)
  have "i \<in> active s" using assms(2) by (simp add: mem_active)
  then have a: "active s = {i}" using r c round_active [of msg s i] by auto
  have "child s = C_Waiting" using c r a assms(2) by (auto simp: round_inv_def)
  then show ?thesis
    using h r o a assms(2,3) unfolding log_inv_def
    by (auto simp: holder_inv_def round_inv_def order_inv_def in_flight_def)
qed

lemma server_write_inv:
  assumes "log_inv msg s" and "servers s i = S_Write"
  shows "log_inv msg (s\<lparr>servers := (servers s)(i := S_Signal), msgs := msgs s @ [msg i], wrote := wrote s @ [i]\<rparr>)"
proof -
  have h: "holder_inv s" and r: "round_inv msg s" and o: "order_inv msg s"
    using assms(1) by (simp_all add: log_inv_def)
  have c: "child s = C_Waiting" using round_signal [OF r h] assms(2) by auto
  have "i \<in> active s" using assms(2) by (simp add: mem_active)
  then have a: "active s = {i}" using r c round_active [of msg s i] by auto
  then have "msgs s = []" using r c assms(2) by (auto simp: round_inv_def)
  then show ?thesis
    using h r o a c assms(2) unfolding log_inv_def
    by (auto simp: holder_inv_def round_inv_def order_inv_def in_flight_def)
qed

lemma server_signal_inv:
  assumes "log_inv msg s" and "servers s i = S_Signal"
  shows "log_inv msg (s\<lparr>servers := (servers s)(i := S_Unlock), child := C_Woken\<rparr>)"
proof -
  have h: "holder_inv s" and r: "round_inv msg s" and o: "order_inv msg s"
    using assms(1) by (simp_all add: log_inv_def)
  have c: "child s = C_Waiting" using round_signal [OF r h] assms(2) by auto
  have "i \<in> active s" using assms(2) by (simp add: mem_active)
  then have a: "active s = {i}" using r c round_active [of msg s i] by auto
  then have "msgs s = [msg i]" using r c assms(2) by (auto simp: round_inv_def)
  then show ?thesis
    using h r o a c assms(2) unfolding log_inv_def
    by (auto simp: holder_inv_def round_inv_def order_inv_def in_flight_def)
qed

lemma server_unlock_inv:
  assumes "log_inv msg s" and "servers s i = S_Unlock"
  shows "log_inv msg (s\<lparr>servers := (servers s)(i := S_Done), mutex := None\<rparr>)"
proof -
  have h: "holder_inv s" and r: "round_inv msg s" and o: "order_inv msg s"
    using assms(1) by (simp_all add: log_inv_def)
  have m: "mutex s = Some (Server i)" using h assms(2) by (auto simp: holder_inv_def)
  then have c: "child s \<in> {C_Lock, C_Waiting, C_Woken}" using h by (auto simp: holder_inv_def)
  have "i \<in> active s" using assms(2) by (simp add: mem_active)
  then have a: "active s = {i}" using r c round_active [of msg s i] by auto
  have "child s = C_Woken" using r c a assms(2) by (auto simp: round_inv_def)
  then show ?thesis
    using h r o a m assms(2) unfolding log_inv_def
    by (auto simp: holder_inv_def round_inv_def order_inv_def in_flight_def)
qed

lemma server_step_inv:
  assumes "server_step msg i s t" and inv: "log_inv msg s"
  shows "log_inv msg t"
  using assms(1)
proof cases
  case server_signal
  then have "child s = C_Waiting"
    using round_signal [of msg s i] inv by (simp add: log_inv_def)
  with server_signal show ?thesis using server_signal_inv [OF inv] by simp
qed (use inv server_token_inv server_eof_inv server_lock_inv server_write_inv server_unlock_inv in auto)

lemma arrive_inv: "arrive s t \<Longrightarrow> log_inv msg s \<Longrightarrow> log_inv msg t"
proof (induction rule: arrive.induct)
  case (1 s i)
  then have "i \<notin> active s" by (simp add: mem_active)
  with 1 show ?case
    by (auto simp: log_inv_def holder_inv_def round_inv_def order_inv_def in_flight_def
        split: child_pc.splits)
qed

interpretation logging: step_system "\<lambda>s. s = log_init" "log_run limit msg" "log_inv msg"
  for limit msg
proof unfold_locales
  show "s = log_init \<Longrightarrow> log_inv msg s" for s using log_inv_init by simp
  show "log_inv msg s \<Longrightarrow> log_run limit msg s t \<Longrightarrow> log_inv msg t" for s t
    by (auto simp: log_run_def log_step_def intro: child_step_inv server_step_inv arrive_inv)
qed

text \<open>What the invariant gives.\<close>

abbreviation log_reachable :: "nat \<Rightarrow> (nat \<Rightarrow> string) \<Rightarrow> logsys \<Rightarrow> bool" where
  "log_reachable limit msg \<equiv> reach (\<lambda>s. s = log_init) (log_run limit msg)"

lemma reachable_inv: "log_reachable limit msg s \<Longrightarrow> log_inv msg s"
  by (rule logging.reach_inv)

text \<open>As long as the log process lives, somebody can go on when a handler is not finished.\<close>

lemma progress:
  assumes "log_inv msg s" and "child s \<noteq> C_Dead" and "servers s i \<notin> {S_Idle, S_Done}"
  shows "\<exists>t. log_step limit msg s t"
proof -
  have h: "holder_inv s" and r: "round_inv msg s" using assms(1) by (simp_all add: log_inv_def)
  have server: "\<exists>t. log_step limit msg s t" if "server_step msg j s t" for j t
    using that by (auto simp: log_step_def)
  have child: "\<exists>t. log_step limit msg s t" if "child_step limit s t" for t
    using that by (auto simp: log_step_def)
  have holder: "\<exists>t. log_step limit msg s t" if "mutex s = Some (Server j)" for j
  proof -
    have "servers s j \<in> {S_Write, S_Signal, S_Unlock}" using h that by (auto simp: holder_inv_def)
    then show ?thesis
      using server server_write server_signal server_unlock by (metis empty_iff insert_iff)
  qed
  have free: "mutex s = None" if "\<And>j. mutex s \<noteq> Some (Server j)" "mutex s \<noteq> Some Child"
    using that by (metis not_None_eq owner.exhaust)
  show ?thesis
  proof (cases "child s")
    case C_Lock
    then have "mutex s \<noteq> Some Child" using h by (simp add: holder_inv_def)
    then show ?thesis using C_Lock free holder child child_lock by metis
  next
    case C_Waiting
    then have m: "mutex s \<noteq> Some Child" using h by (simp add: holder_inv_def)
    show ?thesis
    proof (cases "active s = {}")
      case True
      then have tok: "tokens s = Suc 0" using r C_Waiting by (auto simp: round_inv_def)
      have "servers s i = S_Token" using True assms(3) by (cases "servers s i") (auto simp: active_def)
      with tok show ?thesis using server server_token by blast
    next
      case False
      then obtain j where "j \<in> active s" by blast
      then have "servers s j \<in> {S_Lock, S_Write, S_Signal, S_Unlock}" by (simp add: mem_active)
      then show ?thesis
        using m free holder server server_lock server_write server_signal server_unlock
        by (metis empty_iff insert_iff)
    qed
  next
    case C_Woken
    then have "mutex s \<noteq> Some Child" using h by (simp add: holder_inv_def)
    then show ?thesis using C_Woken free holder child child_relock by metis
  next
    case C_Open
    then show ?thesis using child child_open child_open_fails by (metis not_le)
  next
    case C_Read
    then obtain m where "msgs s = [m]" using r by (auto simp: round_inv_def)
    then show ?thesis using C_Read child child_read by blast
  qed (use assms(2) child child_token child_wait child_log child_unlock in blast)+
qed

section \<open>Executable steps\<close>

text \<open>The step of the log process and of a handler as functions, for running the protocol.\<close>

fun child_next :: "nat \<Rightarrow> logsys \<Rightarrow> logsys option" where
  "child_next limit s = (case child s of
       C_Lock \<Rightarrow> if mutex s = None then Some (s\<lparr>child := C_Token, mutex := Some Child\<rparr>) else None
     | C_Token \<Rightarrow> Some (s\<lparr>child := C_Wait, tokens := Suc (tokens s)\<rparr>)
     | C_Wait \<Rightarrow> Some (s\<lparr>child := C_Waiting, mutex := None\<rparr>)
     | C_Waiting \<Rightarrow> None
     | C_Woken \<Rightarrow> if mutex s = None then Some (s\<lparr>child := C_Open, mutex := Some Child\<rparr>) else None
     | C_Open \<Rightarrow> if log_fds s < limit then Some (s\<lparr>child := C_Read, log_fds := Suc (log_fds s)\<rparr>)
         else Some (s\<lparr>child := C_Dead\<rparr>)
     | C_Read \<Rightarrow> (case msgs s of [] \<Rightarrow> None | m # rest \<Rightarrow> Some (s\<lparr>child := C_Log m, msgs := rest\<rparr>))
     | C_Log m \<Rightarrow> Some (s\<lparr>child := C_Unlock, log_out := log_out s @ [log_line m]\<rparr>)
     | C_Unlock \<Rightarrow> Some (s\<lparr>child := C_Lock, mutex := None\<rparr>)
     | C_Dead \<Rightarrow> None)"

fun server_next :: "(nat \<Rightarrow> string) \<Rightarrow> nat \<Rightarrow> logsys \<Rightarrow> logsys option" where
  "server_next msg i s = (case servers s i of
       S_Token \<Rightarrow> (case tokens s of
           Suc n \<Rightarrow> Some (s\<lparr>servers := (servers s)(i := S_Lock), tokens := n\<rparr>)
         | 0 \<Rightarrow> if child s = C_Dead then Some (s\<lparr>servers := (servers s)(i := S_Lock)\<rparr>) else None)
     | S_Lock \<Rightarrow> if mutex s = None
         then Some (s\<lparr>servers := (servers s)(i := S_Write), mutex := Some (Server i)\<rparr>) else None
     | S_Write \<Rightarrow> Some (s\<lparr>servers := (servers s)(i := S_Signal), msgs := msgs s @ [msg i],
         wrote := wrote s @ [i]\<rparr>)
     | S_Signal \<Rightarrow> Some (s\<lparr>servers := (servers s)(i := S_Unlock),
         child := (if child s = C_Waiting then C_Woken else child s)\<rparr>)
     | S_Unlock \<Rightarrow> Some (s\<lparr>servers := (servers s)(i := S_Done), mutex := None\<rparr>)
     | _ \<Rightarrow> None)"

lemma child_next_step: "child_next limit s = Some t \<longleftrightarrow> child_step limit s t"
proof
  show "child_next limit s = Some t \<Longrightarrow> child_step limit s t"
    by (auto split: child_pc.splits if_splits list.splits intro: child_step.intros)
  show "child_step limit s t \<Longrightarrow> child_next limit s = Some t"
    by (induction rule: child_step.induct) auto
qed

lemma server_next_step: "server_next msg i s = Some t \<longleftrightarrow> server_step msg i s t"
proof
  show "server_next msg i s = Some t \<Longrightarrow> server_step msg i s t"
    using server_signal [of s i msg]
    by (auto split: server_pc.splits if_splits nat.splits simp del: fun_upd_apply
        intro: server_step.intros)
  show "server_step msg i s t \<Longrightarrow> server_next msg i s = Some t"
    by (induction rule: server_step.induct) auto
qed

text \<open>A schedule: who moves next.\<close>

datatype move = Arrive nat | Log_Process | Handler nat

fun run_moves :: "nat \<Rightarrow> (nat \<Rightarrow> string) \<Rightarrow> move list \<Rightarrow> logsys \<Rightarrow> logsys option" where
  "run_moves limit msg [] s = Some s"
| "run_moves limit msg (mv # mvs) s = (case (case mv of
       Arrive i \<Rightarrow> if servers s i = S_Idle then Some (s\<lparr>servers := (servers s)(i := S_Token)\<rparr>) else None
     | Log_Process \<Rightarrow> child_next limit s
     | Handler i \<Rightarrow> server_next msg i s) of
       None \<Rightarrow> None | Some t \<Rightarrow> run_moves limit msg mvs t)"

lemma run_moves_sound: "run_moves limit msg mvs s = Some t \<Longrightarrow> (log_run limit msg)\<^sup>*\<^sup>* s t"
proof (induction mvs arbitrary: s)
  case (Cons mv mvs)
  then obtain u where u: "run_moves limit msg mvs u = Some t" and
    "mv = Log_Process \<and> child_next limit s = Some u \<or>
     (\<exists>i. mv = Handler i \<and> server_next msg i s = Some u) \<or>
     (\<exists>i. servers s i = S_Idle \<and> u = s\<lparr>servers := (servers s)(i := S_Token)\<rparr>)"
    by (auto simp del: child_next.simps server_next.simps split: option.splits move.splits if_splits)
  then have "log_run limit msg s u"
    by (auto simp: log_run_def log_step_def child_next_step server_next_step intro: arrive.intros
        simp del: child_next.simps server_next.simps)
  then show ?case using Cons.IH [OF u] by (rule converse_rtranclp_into_rtranclp)
qed simp

text \<open>One message, from the log process's first lock to its unlock, when descriptors are left, and
  its end when there are none.\<close>

definition one_message :: "nat \<Rightarrow> move list" where
  "one_message i = [Log_Process, Log_Process, Log_Process, Arrive i, Handler i, Handler i,
     Handler i, Handler i, Handler i, Log_Process, Log_Process, Log_Process, Log_Process, Log_Process]"

definition last_message :: "nat \<Rightarrow> move list" where
  "last_message i = [Log_Process, Log_Process, Log_Process, Arrive i, Handler i, Handler i,
     Handler i, Handler i, Handler i, Log_Process, Log_Process]"

text \<open>The state between two messages, when the first \<open>n\<close> handlers are done.\<close>

definition ready :: "(nat \<Rightarrow> string) \<Rightarrow> nat \<Rightarrow> logsys" where
  "ready msg n = \<lparr>child = C_Lock, servers = (\<lambda>i. if i < n then S_Done else S_Idle), mutex = None,
     tokens = 0, msgs = [], log_out = map (\<lambda>i. log_line (msg i)) [0..<n], log_fds = n, wrote = [0..<n]\<rparr>"

lemma ready_next:
  "n < limit \<Longrightarrow> run_moves limit msg (one_message n) (ready msg n) = Some (ready msg (Suc n))"
  by (auto simp: one_message_def ready_def)

lemma ready_last:
  "run_moves n msg (last_message n) (ready msg n) =
     Some ((ready msg n)\<lparr>child := C_Dead, servers := (servers (ready msg n))(n := S_Done),
       mutex := Some Child, msgs := [msg n], wrote := [0..<Suc n]\<rparr>)"
  by (simp add: last_message_def ready_def)

lemma ready_0: "ready msg 0 = log_init"
  by (simp add: ready_def log_init_def)

lemma log_reachable_init: "log_reachable limit msg log_init"
  by (simp add: reach_init)

lemma log_reachable_moves:
  "log_reachable limit msg s \<Longrightarrow> run_moves limit msg mvs s = Some t \<Longrightarrow> log_reachable limit msg t"
  by (erule reach_rtranclp) (rule run_moves_sound)

lemma reachable_ready: "n \<le> limit \<Longrightarrow> log_reachable limit msg (ready msg n)"
proof (induction n)
  case 0 show ?case by (simp add: ready_0 log_reachable_init)
next
  case (Suc n)
  then show ?case using log_reachable_moves [OF _ ready_next [of n limit msg]] by simp
qed

section \<open>How much work is left\<close>

text \<open>The steps that are left before everybody waits, when no further handler starts: a handler that
  has not signalled yet makes the log process go round once more.\<close>

fun child_work :: "child_pc \<Rightarrow> nat" where
  "child_work C_Waiting = 0"
| "child_work C_Wait = 1"
| "child_work C_Token = 2"
| "child_work C_Lock = 3"
| "child_work C_Unlock = 4"
| "child_work (C_Log m) = 5"
| "child_work C_Read = 6"
| "child_work C_Open = 7"
| "child_work C_Woken = 8"
| "child_work C_Dead = 0"

fun server_work :: "server_pc \<Rightarrow> nat" where
  "server_work S_Idle = 0"
| "server_work S_Token = 15"
| "server_work S_Lock = 14"
| "server_work S_Write = 13"
| "server_work S_Signal = 12"
| "server_work S_Unlock = 1"
| "server_work S_Done = 0"

definition started :: "logsys \<Rightarrow> nat set" where
  "started s = {i. servers s i \<noteq> S_Idle}"

definition work :: "nat set \<Rightarrow> logsys \<Rightarrow> nat" where
  "work A s = child_work (child s) + (\<Sum>i\<in>A. server_work (servers s i))"

lemma sum_server_work:
  assumes "finite A" and "i \<in> A"
  shows "(\<Sum>j\<in>A. server_work (((servers s)(i := p)) j)) + server_work (servers s i) =
    (\<Sum>j\<in>A. server_work (servers s j)) + server_work p"
proof -
  have "(\<Sum>j\<in>A - {i}. server_work (((servers s)(i := p)) j)) = (\<Sum>j\<in>A - {i}. server_work (servers s j))"
    by (rule sum.cong) auto
  then show ?thesis using assms by (simp add: sum.remove)
qed

lemma log_step_work:
  assumes "log_step limit msg s t" and "finite A" and "started s \<subseteq> A"
  shows "work A t < work A s \<and> started t \<subseteq> A"
proof -
  have "work A t < work A s \<and> started t = started s" if "child_step limit s t"
    using that by (induction rule: child_step.induct) (auto simp: work_def started_def)
  moreover have "work A t < work A s \<and> started t = started s" if st: "server_step msg i s t" for i
  proof -
    have i: "i \<in> A" using st assms(3) by (cases rule: server_step.cases) (auto simp: started_def)
    note sum = sum_server_work [OF assms(2) i, of s]
    from st show ?thesis
    proof cases
      case server_signal
      then show ?thesis using sum [of S_Unlock] by (cases "child s") (auto simp: work_def started_def)
    next
      case server_unlock
      then show ?thesis using sum [of S_Done] by (auto simp: work_def started_def)
    next
      case server_write
      then show ?thesis using sum [of S_Signal] by (auto simp: work_def started_def)
    next
      case server_lock
      then show ?thesis using sum [of S_Write] by (auto simp: work_def started_def)
    next
      case (server_token n)
      then show ?thesis using sum [of S_Lock] by (auto simp: work_def started_def)
    next
      case server_eof
      then show ?thesis using sum [of S_Lock] by (auto simp: work_def started_def)
    qed
  qed
  ultimately show ?thesis using assms(1,3) by (auto simp: log_step_def)
qed

lemma log_steps_work:
  "(log_step limit msg ^^ n) s t \<Longrightarrow> finite A \<Longrightarrow> started s \<subseteq> A \<Longrightarrow> n + work A t \<le> work A s"
proof (induction n arbitrary: s)
  case (Suc n)
  from Suc.prems(1) obtain u where u: "log_step limit msg s u" "(log_step limit msg ^^ n) u t"
    by (rule relpowp_Suc_E2)
  have "work A u < work A s \<and> started u \<subseteq> A" using log_step_work u(1) Suc.prems by blast
  then show ?case using Suc.IH [OF u(2)] Suc.prems(2) by fastforce
qed simp

lemma finite_started: "log_reachable limit msg s \<Longrightarrow> finite (started s)"
proof (induction rule: reach.induct)
  case (reach_init s)
  then show ?case by (simp add: started_def log_init_def)
next
  case (reach_step s t)
  consider "log_step limit msg s t" | "arrive s t" using reach_step(2) by (auto simp: log_run_def)
  then show ?case
  proof cases
    case 1
    then have "started t \<subseteq> started s" using log_step_work reach_step(3) by blast
    then show ?thesis using reach_step(3) finite_subset by blast
  next
    case 2
    then show ?thesis
    proof cases
      case (1 i)
      then have "started t \<subseteq> insert i (started s)" by (auto simp: started_def)
      then show ?thesis using reach_step(3) by (simp add: finite_subset)
    qed
  qed
qed

text \<open>No step starts a handler or makes it one that has not been started.\<close>

lemma log_step_started: "log_step limit msg s t \<Longrightarrow> started t = started s"
  by (auto simp: log_step_def started_def elim!: child_step.cases server_step.cases split: if_splits)

lemma log_steps_started: "(log_step limit msg ^^ n) s t \<Longrightarrow> started t = started s"
  by (induction n arbitrary: t) (auto dest: log_step_started)

lemma reachable_log_steps:
  "log_reachable limit msg s \<Longrightarrow> (log_step limit msg ^^ n) s t \<Longrightarrow> log_reachable limit msg t"
proof (induction n arbitrary: t)
  case (Suc n)
  from Suc.prems(2) obtain u where "(log_step limit msg ^^ n) s u" "log_step limit msg u t" by auto
  then show ?case using Suc.IH Suc.prems(1) reach_step by (metis log_run_def)
qed simp

text \<open>When nobody can move, the handlers are done and the log holds every message.\<close>

lemma at_rest:
  assumes inv: "log_inv msg s" and dead: "child s \<noteq> C_Dead" and rest: "\<And>t. \<not> log_step limit msg s t"
  shows "(\<forall>i. servers s i \<in> {S_Idle, S_Done}) \<and>
    log_out s = map (\<lambda>i. log_line (msg i)) (wrote s)"
proof -
  have h: "holder_inv s" and r: "round_inv msg s" using inv by (simp_all add: log_inv_def)
  have idle: "\<And>i. servers s i \<in> {S_Idle, S_Done}" using progress [OF inv dead] rest by blast
  have "servers s i \<notin> {S_Lock, S_Write, S_Signal, S_Unlock}" for i
    using idle [of i] by auto
  then have a: "active s = {}" and m: "mutex s \<noteq> Some (Server i)" for i
    using h by (auto simp: active_def holder_inv_def)
  have free: "mutex s = None" if "child s \<in> {C_Lock, C_Waiting, C_Woken}"
  proof -
    have "mutex s \<noteq> Some Child" using h that unfolding holder_inv_def by blast
    then show ?thesis using m by (metis not_None_eq owner.exhaust)
  qed
  have no: "\<not> child_step limit s t" for t using rest by (simp add: log_step_def)
  then have none: "child_next limit s = None" by (metis child_next_step not_None_eq)
  have "child s = C_Waiting"
    using none free r dead a by (cases "child s") (auto simp: round_inv_def split: if_splits)
  then have "in_flight s = []" using r a by (auto simp: round_inv_def in_flight_def)
  then show ?thesis using idle inv by (simp add: log_inv_def order_inv_def)
qed

section \<open>Properties\<close>

text \<open>Claim C10. In every reachable state of the log protocol at most one handler is between its
  \<open>pthread_mutex_lock\<close> and \<open>pthread_mutex_unlock\<close>, the log process is not in its own critical
  section then, and when that handler is about to signal, the log process is waiting on the
  condition variable: no signal is lost.\<close>

theorem log_mutual_exclusion:
  assumes "log_reachable limit msg s" and "servers s i \<in> {S_Write, S_Signal, S_Unlock}"
  shows "(\<forall>j. servers s j \<in> {S_Write, S_Signal, S_Unlock} \<longrightarrow> j = i) \<and>
    child s \<in> {C_Lock, C_Waiting, C_Woken} \<and> (servers s i = S_Signal \<longrightarrow> child s = C_Waiting)"
proof -
  have inv: "holder_inv s" "round_inv msg s" using reachable_inv [OF assms(1)] by (simp_all add: log_inv_def)
  have holder: "mutex s = Some (Server j) \<longleftrightarrow> servers s j \<in> {S_Write, S_Signal, S_Unlock}" for j
    using inv(1) unfolding holder_inv_def by blast
  then have m: "mutex s = Some (Server i)" using assms(2) by blast
  have "\<forall>j. servers s j \<in> {S_Write, S_Signal, S_Unlock} \<longrightarrow> j = i"
    using m unfolding holder [symmetric] by simp
  moreover have "child s \<in> {C_Lock, C_Waiting, C_Woken}"
  proof (rule ccontr)
    assume "child s \<notin> {C_Lock, C_Waiting, C_Woken}"
    then have "mutex s = Some Child" using inv(1) unfolding holder_inv_def by blast
    with m show False by simp
  qed
  moreover have "servers s i = S_Signal \<longrightarrow> child s = C_Waiting"
    using round_signal [OF inv(2,1), of i] by blast
  ultimately show ?thesis by (intro conjI)
qed

text \<open>Claim C9. In every reachable state the log file holds, in the order of writing, the messages that the
  handlers wrote, except for at most one that is on its way; no handler writes twice.\<close>

theorem log_messages_in_order:
  assumes "log_reachable limit msg s"
  shows "log_out s = map (\<lambda>i. log_line (msg i)) (take (length (log_out s)) (wrote s)) \<and>
    length (wrote s) \<le> Suc (length (log_out s)) \<and> distinct (wrote s) \<and>
    set (wrote s) = {i. servers s i \<in> {S_Signal, S_Unlock, S_Done}}"
proof -
  have inv: "order_inv msg s" "round_inv msg s" using reachable_inv [OF assms] by (simp_all add: log_inv_def)
  have f: "length (in_flight s) \<le> 1"
    using inv(2) by (auto simp: round_inv_def in_flight_def split: child_pc.splits)
  have m: "map (\<lambda>i. log_line (msg i)) (wrote s) = log_out s @ map log_line (in_flight s)"
    using inv(1) by (simp add: order_inv_def)
  have "length (wrote s) = length (log_out s) + length (in_flight s)"
    using arg_cong [OF m, of length] by simp
  moreover have "map (\<lambda>i. log_line (msg i)) (take (length (log_out s)) (wrote s)) = log_out s"
    using m by (simp flip: take_map)
  ultimately show ?thesis using f inv(1) by (simp add: order_inv_def)
qed

text \<open>Claim C8. From every reachable state the protocol comes to rest within a bounded number of steps,
  whatever the interleaving, if no further handler starts; and when it is at rest and the log
  process has not ended, every handler is done and the log holds every message.\<close>

theorem log_protocol_completes:
  assumes "log_reachable limit msg s"
  shows "\<exists>bound. \<forall>n t. (log_step limit msg ^^ n) s t \<longrightarrow> n \<le> bound \<and>
    ((\<nexists>u. log_step limit msg t u) \<and> child t \<noteq> C_Dead \<longrightarrow>
      (\<forall>i. servers t i \<in> {S_Idle, S_Done}) \<and> log_out t = map (\<lambda>i. log_line (msg i)) (wrote t))"
proof (intro exI allI impI)
  fix n t assume st: "(log_step limit msg ^^ n) s t"
  have "log_inv msg t" using reachable_inv [OF reachable_log_steps [OF assms st]] .
  moreover have "n \<le> work (started s) s"
    using log_steps_work [OF st finite_started [OF assms]] by simp
  ultimately show "n \<le> work (started s) s \<and> ((\<nexists>u. log_step limit msg t u) \<and> child t \<noteq> C_Dead \<longrightarrow>
      (\<forall>i. servers t i \<in> {S_Idle, S_Done}) \<and> log_out t = map (\<lambda>i. log_line (msg i)) (wrote t))"
    using at_rest by blast
qed

text \<open>Two reachable states for the witnesses: a handler about to signal, and two messages logged.\<close>

definition signalling :: logsys where
  "signalling = the (run_moves 5 (\<lambda>i. ''m'')
     [Log_Process, Log_Process, Log_Process, Arrive 0, Arrive 1, Handler 0, Handler 0, Handler 0] log_init)"

lemma signalling_state:
  "log_reachable 5 (\<lambda>i. ''m'') signalling \<and> servers signalling 0 = S_Signal \<and> wrote signalling = [0]"
proof -
  have "\<exists>t. run_moves 5 (\<lambda>i. ''m'')
     [Log_Process, Log_Process, Log_Process, Arrive 0, Arrive 1, Handler 0, Handler 0, Handler 0] log_init = Some t
     \<and> servers t 0 = S_Signal \<and> wrote t = [0]"
    by (simp add: log_init_def)
  then obtain t where t: "run_moves 5 (\<lambda>i. ''m'')
     [Log_Process, Log_Process, Log_Process, Arrive 0, Arrive 1, Handler 0, Handler 0, Handler 0] log_init = Some t"
     "servers t 0 = S_Signal" "wrote t = [0]" by blast
  have "signalling = t" unfolding signalling_def t(1) by (rule option.sel)
  with t(2,3) log_reachable_moves [OF log_reachable_init t(1)] show ?thesis by simp
qed

theorem log_mutual_exclusion_witness:
  "child signalling = C_Waiting \<and> servers signalling 0 = S_Signal"
  using log_mutual_exclusion [of 5 "\<lambda>i. ''m''" signalling 0] signalling_state by simp

theorem log_messages_in_order_witness:
  "log_reachable 5 (\<lambda>i. ''m'') signalling \<and> length (wrote signalling) \<le> Suc (length (log_out signalling))"
  using log_messages_in_order [of 5 "\<lambda>i. ''m''" signalling] signalling_state by simp

theorem log_protocol_completes_witness:
  "\<exists>bound. \<forall>n t. (log_step 5 (\<lambda>i. ''m'') ^^ n) signalling t \<longrightarrow> n \<le> bound"
  using log_protocol_completes [of 5 "\<lambda>i. ''m''" signalling] signalling_state by blast

section \<open>Where the protocol fails\<close>

text \<open>The log process has ended while it held the mutex.\<close>

definition dead :: "logsys \<Rightarrow> bool" where
  "dead s \<longleftrightarrow> child s = C_Dead \<and> mutex s = Some Child \<and> (\<forall>i. servers s i \<notin> {S_Write, S_Signal, S_Unlock})"

lemma dead_step: "log_run limit msg s t \<Longrightarrow> dead s \<Longrightarrow> dead t \<and> log_out t = log_out s \<and> wrote t = wrote s"
  by (auto simp: log_run_def log_step_def dead_def elim!: child_step.cases server_step.cases arrive.cases
      split: if_splits)

lemma dead_steps: "(log_run limit msg)\<^sup>*\<^sup>* s t \<Longrightarrow> dead s \<Longrightarrow> dead t \<and> log_out t = log_out s \<and> wrote t = wrote s"
  by (induction rule: rtranclp_induct) (auto dest: dead_step)

text \<open>The log process waits for a message while it holds the mutex.\<close>

definition starved :: "logsys \<Rightarrow> bool" where
  "starved s \<longleftrightarrow> child s = C_Read \<and> msgs s = [] \<and> mutex s = Some Child \<and>
     (\<forall>i. servers s i \<notin> {S_Write, S_Signal, S_Unlock})"

lemma starved_step: "log_run limit msg s t \<Longrightarrow> starved s \<Longrightarrow> starved t \<and> log_out t = log_out s \<and> wrote t = wrote s"
  by (auto simp: log_run_def log_step_def starved_def elim!: child_step.cases server_step.cases arrive.cases
      split: if_splits)

lemma starved_steps:
  "(log_run limit msg)\<^sup>*\<^sup>* s t \<Longrightarrow> starved s \<Longrightarrow> starved t \<and> log_out t = log_out s \<and> wrote t = wrote s"
  by (induction rule: rtranclp_induct) (auto dest: starved_step)

text \<open>Claim C29. The log process opens the log file for every message and never closes it. After as many
  messages as it has descriptors it can be dead with the mutex locked, and from then on no handler
  ever writes and nothing is logged.\<close>

theorem log_dies_of_descriptors:
  "\<exists>s. log_reachable limit msg s \<and> child s = C_Dead \<and> length (log_out s) = limit \<and>
    length (wrote s) = Suc limit \<and>
    (\<forall>t. (log_run limit msg)\<^sup>*\<^sup>* s t \<longrightarrow> mutex t = Some Child \<and> log_out t = log_out s \<and> wrote t = wrote s)"
proof -
  define s where "s = (ready msg limit)\<lparr>child := C_Dead, servers := (servers (ready msg limit))(limit := S_Done),
       mutex := Some Child, msgs := [msg limit], wrote := [0..<Suc limit]\<rparr>"
  have "log_reachable limit msg s"
    unfolding s_def by (rule log_reachable_moves [OF reachable_ready ready_last]) simp
  moreover have "dead s" by (simp add: s_def dead_def ready_def)
  then have "\<forall>t. (log_run limit msg)\<^sup>*\<^sup>* s t \<longrightarrow> mutex t = Some Child \<and> log_out t = log_out s \<and> wrote t = wrote s"
    using dead_steps by (auto simp: dead_def)
  ultimately show ?thesis by (intro exI [of _ s]) (simp add: s_def ready_def)
qed

theorem log_dies_of_descriptors_witness:
  "\<exists>s. log_reachable 2 (\<lambda>i. ''m'') s \<and> child s = C_Dead \<and> length (log_out s) = 2"
  using log_dies_of_descriptors [of 2 "\<lambda>i. ''m''"] by blast

text \<open>Claim C30. \<open>pthread_cond_wait\<close> may return without a signal, and the log process does not test for it. One
  such wakeup can leave it waiting for a message while it holds the mutex that every handler needs
  before it writes: nothing is logged any more.\<close>

theorem spurious_wakeup_deadlocks:
  assumes "0 < limit"
  shows "\<exists>s t u. log_reachable limit msg s \<and> spurious s t \<and> (log_run limit msg)\<^sup>*\<^sup>* t u \<and>
    (\<forall>v. (log_run limit msg)\<^sup>*\<^sup>* u v \<longrightarrow>
      child v = C_Read \<and> mutex v = Some Child \<and> wrote v = [] \<and> log_out v = [])"
proof -
  define s where "s = log_init\<lparr>child := C_Waiting, tokens := 1\<rparr>"
  define t where "t = s\<lparr>child := C_Woken\<rparr>"
  define u where "u = s\<lparr>child := C_Read, mutex := Some Child, log_fds := 1\<rparr>"
  have "run_moves limit msg [Log_Process, Log_Process, Log_Process] log_init = Some s"
    by (simp add: s_def log_init_def)
  then have "log_reachable limit msg s" by (rule log_reachable_moves [OF log_reachable_init])
  moreover have "spurious s t" unfolding t_def by (rule spurious.intros) (simp add: s_def)
  moreover have "run_moves limit msg [Log_Process, Log_Process] t = Some u"
    using assms by (simp add: t_def u_def s_def log_init_def)
  then have "(log_run limit msg)\<^sup>*\<^sup>* t u" by (rule run_moves_sound)
  moreover have "starved u" by (simp add: u_def s_def log_init_def starved_def)
  then have "child v = C_Read \<and> mutex v = Some Child \<and> wrote v = [] \<and> log_out v = []"
    if "(log_run limit msg)\<^sup>*\<^sup>* u v" for v
    using starved_steps [OF that] by (simp add: starved_def u_def s_def log_init_def)
  ultimately show ?thesis by blast
qed

theorem spurious_wakeup_deadlocks_witness:
  "\<exists>s t u. log_reachable 5 (\<lambda>i. ''m'') s \<and> spurious s t \<and> (log_run 5 (\<lambda>i. ''m''))\<^sup>*\<^sup>* t u \<and> child u = C_Read"
  using spurious_wakeup_deadlocks [of 5 "\<lambda>i. ''m''"] by auto

text \<open>The log process of one message writes to the log what the handler formatted, whatever is in
  the uninitialised part of the handler's array.\<close>

theorem log_message_roundtrip:
  assumes "nul_free path" and "nul_free ip"
  shows "socket_pipe_log_father True (socket_pipe_log_child junk path sz ip port) log =
    Ret (log @ ''L -> '' @
      take (BUFFER_SIZE * 2 - 1) (multi_text path sz ip @ '' Port: '' @ show_int port @ [NL]))"
proof -
  let ?t = "take (BUFFER_SIZE * 2 - 1) (multi_text path sz ip @ '' Port: '' @ show_int port @ [NL])"
  have n: "nul_free (show_int k)" for k
    using show_int_not_special [of NUL k] by (auto simp: nul_free_def)
  have "nul_free (multi_text path sz ip @ '' Port: '' @ show_int port @ [NL])"
    using assms n by (simp add: multi_text_def nul_free_def)
  then have f: "nul_free ?t" unfolding nul_free_def by (meson in_set_takeD)
  have "length ?t < BUFFER_SIZE * 2" by (simp add: BUFFER_SIZE_def)
  then have "cstr (socket_pipe_log_child junk path sz ip port) = ?t"
    using f unfolding socket_pipe_log_child_def snprintf_text_def Let_def by (rule cstr_array [rotated])
  then show ?thesis by (simp add: socket_pipe_log_father_def)
qed

theorem log_message_roundtrip_witness:
  "socket_pipe_log_father True (socket_pipe_log_child ''x'' ''/a'' 5 ''::1'' 7070) ''log'' =
    Ret (''log'' @ ''L -> '' @ take (BUFFER_SIZE * 2 - 1)
      (multi_text ''/a'' 5 ''::1'' @ '' Port: '' @ show_int 7070 @ [NL]))"
  using log_message_roundtrip [of "''/a''" "''::1''" "''x''" 5 7070 "''log''"] by (simp add: nul_free_def)

end
