(* ===== verification/Server.thy ===== *)
theory Server
  imports ConfigFile LogPipe "HOL-Library.Multiset"
begin

text \<open>
  The server process on Linux: \<open>linux/lib/socket/linux_socket.c\<close> (starting, the accept loop, handing
  a connection to a thread or to a process), \<open>linux/lib/signals/linux_signals.c\<close>, and \<open>main.c\<close>.

  \<^item> \<open>server\<close> is the state of the process that accepts: the global configuration and
    \<open>ip_buffer\<close>, its open descriptors, the heap blocks it owns, the sockets that are bound, and
    the arguments of the handlers it has started. What a started thread has received is no longer
    counted as the server's.
  \<^item> The environment is a list of events: \<open>select\<close> interrupted by a signal, failing, or ready with
    the results of \<open>accept\<close>, the allocations and \<open>pthread_create\<close>/\<open>fork\<close>. When the list
    is used up, \<open>select\<close> waits for ever.
  \<^item> \<open>accept_loop_refines\<close> gives the loop's effect as functions of the events alone, on which the
    properties rest. \<open>run_lives\<close> is the outer loop of \<open>main\<close>.
\<close>

section \<open>The state of the server process\<close>

record server =
  sv_conf :: Configs              \<comment> \<open>\<open>*configs\<close>\<close>
  sv_ip :: string                 \<comment> \<open>\<open>ip_buffer\<close>\<close>
  sv_dos :: int                   \<comment> \<open>\<open>DOS_PROTECTION\<close>\<close>
  sv_cwd :: string                \<comment> \<open>\<open>cwd\<close>\<close>
  sv_fds :: "int list"            \<comment> \<open>open sockets, those handed to a thread excepted\<close>
  sv_blks :: "blk list"           \<comment> \<open>heap blocks, those handed to a thread excepted\<close>
  sv_bound :: "(int \<times> 16 word) list" \<comment> \<open>bound sockets and their ports\<close>
  sv_handlers :: "ThreadArgs list" \<comment> \<open>what the started handlers were given\<close>
  sv_mutex :: bool                \<comment> \<open>\<open>p_mutex\<close> has been initialised\<close>

definition open_fd :: "int \<Rightarrow> (server, unit) prog" where
  "open_fd d = modM (\<lambda>s. s\<lparr>sv_fds := d # sv_fds s\<rparr>)"

text \<open>The descriptor leaves the process, by \<open>close\<close> or into a thread; a negative one is not there.\<close>

definition drop_fd :: "int \<Rightarrow> (server, unit) prog" where
  "drop_fd d = modM (\<lambda>s. if d < 0 then s else s\<lparr>sv_fds := remove1 d (sv_fds s)\<rparr>)"

definition allocS :: "blk \<Rightarrow> bool \<Rightarrow> (server, bool) prog" where
  "allocS b ok = (if ok then thenM (modM (\<lambda>s. s\<lparr>sv_blks := b # sv_blks s\<rparr>)) (retM True) else retM False)"

definition freeS :: "blk \<Rightarrow> (server, unit) prog" where
  "freeS b = (\<lambda>s. if b \<in> set (sv_blks s) then (Ret (), s\<lparr>sv_blks := remove1 b (sv_blks s)\<rparr>)
                  else (UB Double_Free, s))"

definition add_handler :: "ThreadArgs \<Rightarrow> (server, unit) prog" where
  "add_handler args = modM (\<lambda>s. s\<lparr>sv_handlers := sv_handlers s @ [args]\<rparr>)"

section \<open>Starting and stopping\<close>

definition start_mutex :: "(server, unit) prog" where
  "start_mutex = bindM (getM (\<lambda>s. mode_concurrency (sv_conf s))) (\<lambda>m.
     whenM (m = M_THREAD) (modM (\<lambda>s. s\<lparr>sv_mutex := True\<rparr>)))"

definition close_mutex :: "(server, unit) prog" where
  "close_mutex = bindM (getM (\<lambda>s. mode_concurrency (sv_conf s))) (\<lambda>m.
     whenM (m = M_THREAD) (modM (\<lambda>s. s\<lparr>sv_mutex := False\<rparr>)))"

definition end_server :: "int \<Rightarrow> (server, int) prog" where
  "end_server d =
     bindM (getM (\<lambda>s. d \<in> set (sv_fds s))) (\<lambda>was_open.
     thenM (drop_fd d)
     (thenM (modM (\<lambda>s. s\<lparr>sv_bound := filter (\<lambda>(f, p). f \<noteq> d) (sv_bound s)\<rparr>))
     (retM (if was_open then 0 else - 1))))"

text \<open>The results of the calls that set the listening socket up.\<close>

record net =
  n_socket :: int
  n_setsockopt :: bool
  n_bind :: "16 word \<Rightarrow> bool"
  n_listen :: bool

definition start_server :: "net \<Rightarrow> 32 word \<Rightarrow> int \<Rightarrow> (server, int) prog" where
  "start_server net port queue_size =
     (if queue_size < 1 then retM (- 1)
      else if n_socket net = - 1 then retM (- 1)
      else thenM (open_fd (n_socket net))
       (if \<not> n_setsockopt net then retM (- 1)
        else let sin_port = ucast port :: 16 word in
          if \<not> n_bind net sin_port then retM (- 1)
          else thenM (modM (\<lambda>s. s\<lparr>sv_bound := (n_socket net, sin_port) # sv_bound s\<rparr>))
            (if \<not> n_listen net then retM (- 1) else retM (n_socket net))))"

section \<open>Accepting\<close>

text \<open>What a thread takes over: its descriptor and the two blocks it will free.\<close>

definition hand_over :: "ThreadArgs \<Rightarrow> (server, unit) prog" where
  "hand_over args = thenM (drop_fd (fd args)) (modM (\<lambda>s. s\<lparr>sv_blks :=
     remove1 Blk_Args (remove1 Blk_Ip (sv_blks s))\<rparr>))"

text \<open>
  \<open>ok\<close>: \<open>pthread_create\<close> or \<open>fork\<close> succeeds. A thread takes over the descriptor and the blocks;
  a child process has copies of them, so the parent releases its own.
\<close>

definition run_concurrency :: "bool \<Rightarrow> ThreadArgs \<Rightarrow> (server, int) prog" where
  "run_concurrency ok args =
     (if mode_concurrency (configs args) = M_THREAD then
        if \<not> ok then retM (- 1)
        else thenM (add_handler args) (thenM (hand_over args) (retM 0))
      else if mode_concurrency (configs args) = M_PROCESS then
        if \<not> ok then retM (- 1)
        else thenM (add_handler args) (thenM (drop_fd (fd args))
          (thenM (freeS Blk_Ip) (thenM (freeS Blk_Args) (retM 0))))
      else retM (- 1))"

text \<open>What the started handler runs.\<close>

definition handle_request_thread :: "os \<Rightarrow> (world, unit) prog" where
  "handle_request_thread env = handle_request env"

definition forked_child :: "os \<Rightarrow> (world, unit) prog" where
  "forked_child env = thenM (handle_request env) (stopM (Exit 0))"

definition SIGHUP :: int where "SIGHUP = 1"

text \<open>The pointer that the signal handler stores is only compared with NULL.\<close>

definition signal_sighup_handler :: "int \<Rightarrow> (server, unit) prog" where
  "signal_sighup_handler signo =
     whenM (signo = SIGHUP) (modM (\<lambda>s. s\<lparr>sv_conf := (sv_conf s)\<lparr>reset_config := True\<rparr>\<rparr>))"

text \<open>The result of \<open>accept\<close>. When it is interrupted, \<open>client_addr\<close> still holds an older address
  or nothing; the string is what \<open>inet_ntop\<close> makes of it.\<close>

datatype accept_res = Accepted nat string | Accept_Intr string | Accept_Err

record round =
  rd_hup :: bool         \<comment> \<open>\<open>SIGHUP\<close> arrives after \<open>select\<close> has returned\<close>
  rd_accept :: accept_res
  rd_name_ok :: bool     \<comment> \<open>the block for the client's address can be allocated\<close>
  rd_args_ok :: bool     \<comment> \<open>the block for the arguments can be allocated\<close>
  rd_spawn :: bool       \<comment> \<open>the thread or the process can be created\<close>

datatype event = Ev_Signal int | Ev_Select_Err | Ev_Ready round

definition serve_connection :: "round \<Rightarrow> int \<Rightarrow> string \<Rightarrow> (server, unit) prog" where
  "serve_connection rd accept_fd clientname =
     bindM (allocS Blk_Ip (rd_name_ok rd)) (\<lambda>ok1.
     if \<not> ok1 then retM ()
     else bindM (allocS Blk_Args (rd_args_ok rd)) (\<lambda>ok2.
       if \<not> ok2 then freeS Blk_Ip
       else bindM (getM sv_conf) (\<lambda>conf.
         thenM (run_concurrency (rd_spawn rd)
           \<lparr>fd = accept_fd, configs = conf, ip_client = clientname, type_Request = 0\<rparr>)
         (retM ()))))"

definition accept_round :: "round \<Rightarrow> (server, unit) prog" where
  "accept_round rd =
     thenM (whenM (rd_hup rd) (signal_sighup_handler SIGHUP))
     (case rd_accept rd of
        Accept_Err \<Rightarrow> retM ()
      | Accept_Intr stale \<Rightarrow> serve_connection rd (- 1) stale
      | Accepted n name \<Rightarrow> thenM (open_fd (int n)) (serve_connection rd (int n) name))"

fun accept_loop :: "int \<Rightarrow> event list \<Rightarrow> (server, int) prog" where
  "accept_loop fd_server [] = stopM Blocked"
| "accept_loop fd_server (Ev_Signal n # es) =
     thenM (signal_sighup_handler n)
     (bindM (getM (\<lambda>s. reset_config (sv_conf s))) (\<lambda>reset.
      if reset then thenM (end_server fd_server) (retM (- 1)) else accept_loop fd_server es))"
| "accept_loop fd_server (Ev_Select_Err # es) = accept_loop fd_server es"
| "accept_loop fd_server (Ev_Ready rd # es) = thenM (accept_round rd) (accept_loop fd_server es)"

definition linux_socket :: "net \<Rightarrow> event list \<Rightarrow> (server, int) prog" where
  "linux_socket net es =
     bindM (getM (\<lambda>s. port_number (sv_conf s))) (\<lambda>port.
     bindM (start_server net port CONNECTION_QUEUE) (\<lambda>fd_server.
     if fd_server < 0 then stopM (Exit (- 1)) else accept_loop fd_server es))"

section \<open>What the loop does, as functions of the events\<close>

definition hup :: "bool \<Rightarrow> Configs \<Rightarrow> Configs" where
  "hup b c = (if b then c\<lparr>reset_config := True\<rparr> else c)"

text \<open>A round starts a handler unless there is no connection or something it needs is missing.\<close>

definition spawns :: "Configs \<Rightarrow> round \<Rightarrow> bool" where
  "spawns c rd \<longleftrightarrow> rd_name_ok rd \<and> rd_args_ok rd \<and> rd_spawn rd \<and>
     (mode_concurrency c = M_THREAD \<or> mode_concurrency c = M_PROCESS)"

definition started_by :: "Configs \<Rightarrow> round \<Rightarrow> ThreadArgs list" where
  "started_by c rd = (if \<not> spawns c rd then [] else case rd_accept rd of
       Accept_Err \<Rightarrow> []
     | Accept_Intr stale \<Rightarrow> [\<lparr>fd = - 1, configs = c, ip_client = stale, type_Request = 0\<rparr>]
     | Accepted n name \<Rightarrow> [\<lparr>fd = int n, configs = c, ip_client = name, type_Request = 0\<rparr>])"

text \<open>What a round leaves behind in the server process.\<close>

definition lost_fds :: "Configs \<Rightarrow> round \<Rightarrow> int list" where
  "lost_fds c rd = (case rd_accept rd of
       Accepted n name \<Rightarrow> if spawns c rd then [] else [int n]
     | _ \<Rightarrow> [])"

definition lost_blks :: "Configs \<Rightarrow> round \<Rightarrow> blk list" where
  "lost_blks c rd = (if rd_accept rd \<noteq> Accept_Err \<and> rd_name_ok rd \<and> rd_args_ok rd \<and> \<not> spawns c rd
     then [Blk_Args, Blk_Ip] else [])"

lemma rev_lost_fds [simp]: "rev (lost_fds c rd) = lost_fds c rd"
  by (simp add: lost_fds_def split: accept_res.split)

fun conf_after :: "Configs \<Rightarrow> event list \<Rightarrow> Configs" where
  "conf_after c [] = c"
| "conf_after c (Ev_Signal n # es) =
     (let c' = hup (n = SIGHUP) c in if reset_config c' then c' else conf_after c' es)"
| "conf_after c (Ev_Select_Err # es) = conf_after c es"
| "conf_after c (Ev_Ready rd # es) = conf_after (hup (rd_hup rd) c) es"

fun resets :: "Configs \<Rightarrow> event list \<Rightarrow> bool" where
  "resets c [] = False"
| "resets c (Ev_Signal n # es) =
     (let c' = hup (n = SIGHUP) c in reset_config c' \<or> resets c' es)"
| "resets c (Ev_Select_Err # es) = resets c es"
| "resets c (Ev_Ready rd # es) = resets (hup (rd_hup rd) c) es"

text \<open>The concatenation, over the rounds up to the reset, of what \<open>f\<close> gives for each.\<close>

fun over_rounds :: "(Configs \<Rightarrow> round \<Rightarrow> 'a list) \<Rightarrow> Configs \<Rightarrow> event list \<Rightarrow> 'a list" where
  "over_rounds f c [] = []"
| "over_rounds f c (Ev_Signal n # es) =
     (let c' = hup (n = SIGHUP) c in if reset_config c' then [] else over_rounds f c' es)"
| "over_rounds f c (Ev_Select_Err # es) = over_rounds f c es"
| "over_rounds f c (Ev_Ready rd # es) =
     (let c' = hup (rd_hup rd) c in f c' rd @ over_rounds f c' es)"

abbreviation served :: "Configs \<Rightarrow> event list \<Rightarrow> ThreadArgs list" where
  "served \<equiv> over_rounds started_by"

text \<open>Lists that grow at the front.\<close>

abbreviation leaked_fds :: "Configs \<Rightarrow> event list \<Rightarrow> int list" where
  "leaked_fds c es \<equiv> rev (over_rounds lost_fds c es)"

abbreviation leaked_blks :: "Configs \<Rightarrow> event list \<Rightarrow> blk list" where
  "leaked_blks c es \<equiv> rev (over_rounds (\<lambda>c rd. rev (lost_blks c rd)) c es)"

definition round_effect :: "round \<Rightarrow> server \<Rightarrow> server" where
  "round_effect rd s = (let c = hup (rd_hup rd) (sv_conf s) in
     s\<lparr>sv_conf := c, sv_handlers := sv_handlers s @ started_by c rd,
       sv_fds := lost_fds c rd @ sv_fds s, sv_blks := lost_blks c rd @ sv_blks s\<rparr>)"

lemmas server_ops = open_fd_def drop_fd_def allocS_def freeS_def add_handler_def hand_over_def
  bindM_def thenM_def getM_def modM_def retM_def

lemma hup_run: "whenM b (signal_sighup_handler SIGHUP) s = (Ret (), s\<lparr>sv_conf := hup b (sv_conf s)\<rparr>)"
  by (cases b) (simp_all add: signal_sighup_handler_def hup_def)

lemma sighup_run: "signal_sighup_handler n s = (Ret (), s\<lparr>sv_conf := hup (n = SIGHUP) (sv_conf s)\<rparr>)"
  by (simp add: signal_sighup_handler_def hup_def whenM_def)

lemma serve_connection_run:
  "serve_connection rd d name s = (Ret (),
     if spawns (sv_conf s) rd
     then (if d < 0 then s else s\<lparr>sv_fds := remove1 d (sv_fds s)\<rparr>)\<lparr>sv_handlers := sv_handlers s @
       [\<lparr>fd = d, configs = sv_conf s, ip_client = name, type_Request = 0\<rparr>]\<rparr>
     else if rd_name_ok rd \<and> rd_args_ok rd then s\<lparr>sv_blks := [Blk_Args, Blk_Ip] @ sv_blks s\<rparr> else s)"
  by (simp add: serve_connection_def run_concurrency_def spawns_def server_ops)

lemma accept_round_run: "accept_round rd s = (Ret (), round_effect rd s)"
proof -
  let ?s = "s\<lparr>sv_conf := hup (rd_hup rd) (sv_conf s)\<rparr>"
  have "accept_round rd s = (case rd_accept rd of
        Accept_Err \<Rightarrow> retM ()
      | Accept_Intr stale \<Rightarrow> serve_connection rd (- 1) stale
      | Accepted n name \<Rightarrow> thenM (open_fd (int n)) (serve_connection rd (int n) name)) ?s"
    unfolding accept_round_def thenM_bindM by (rule bindM_run) (rule hup_run)
  then show ?thesis
    by (cases "rd_accept rd")
      (simp_all add: round_effect_def Let_def started_by_def lost_fds_def lost_blks_def
        thenM_def bindM_def open_fd_def serve_connection_run)
qed

definition loop_effect :: "int \<Rightarrow> event list \<Rightarrow> server \<Rightarrow> server" where
  "loop_effect d es s = (let c = sv_conf s; s' = s\<lparr>sv_conf := conf_after c es,
       sv_handlers := sv_handlers s @ served c es, sv_fds := leaked_fds c es @ sv_fds s,
       sv_blks := leaked_blks c es @ sv_blks s\<rparr>
     in if resets c es then snd (end_server d s') else s')"

lemma end_server_run:
  "end_server d s = (Ret (if d \<in> set (sv_fds s) then 0 else - 1),
     s\<lparr>sv_fds := (if d < 0 then sv_fds s else remove1 d (sv_fds s)),
       sv_bound := filter (\<lambda>(f, p). f \<noteq> d) (sv_bound s)\<rparr>)"
  by (simp add: end_server_def server_ops)

lemma accept_loop_run:
  "accept_loop d es s = ((if resets (sv_conf s) es then Ret (- 1) else Blocked), loop_effect d es s)"
proof (induction d es arbitrary: s rule: accept_loop.induct)
  case (1 d)
  then show ?case by (simp add: loop_effect_def)
next
  case (2 d n es)
  let ?s = "s\<lparr>sv_conf := hup (n = SIGHUP) (sv_conf s)\<rparr>"
  show ?case
    using 2 [of "reset_config (sv_conf ?s)" ?s]
    by (simp add: thenM_def bindM_def getM_def sighup_run end_server_run loop_effect_def Let_def)
next
  case (3 d es)
  then show ?case by (simp add: loop_effect_def)
next
  case (4 d rd es)
  show ?case
    using 4 [of "round_effect rd s"]
    by (simp add: thenM_def bindM_def accept_round_run loop_effect_def round_effect_def Let_def end_server_run)
qed

section \<open>Properties of the accept loop\<close>

lemma conf_after_fields [simp]:
  "port_number (conf_after c es) = port_number c"
  "mode_concurrency (conf_after c es) = mode_concurrency c"
  "root_dir (conf_after c es) = root_dir c"
  "hostname (conf_after c es) = hostname c"
  by (induction c es rule: conf_after.induct) (auto simp: Let_def hup_def)

text \<open>Claim C7. The accept loop on any sequence of events: it returns -1 exactly when a signal interrupts
  \<open>select\<close> while the reload flag is set, and otherwise waits for ever. The handlers that it has
  started are exactly the \<open>served\<close> ones, in the order of the connections, each with the
  configuration of its time; what is left behind is what the failed rounds lose; after a reset
  the listening socket is no longer bound.\<close>

theorem accept_loop_refines:
  "accept_loop d es s =
    ((if resets (sv_conf s) es then Ret (- 1) else Blocked),
     s\<lparr>sv_conf := conf_after (sv_conf s) es,
       sv_handlers := sv_handlers s @ served (sv_conf s) es,
       sv_fds := (if resets (sv_conf s) es \<and> 0 \<le> d then remove1 d else id)
         (leaked_fds (sv_conf s) es @ sv_fds s),
       sv_blks := leaked_blks (sv_conf s) es @ sv_blks s,
       sv_bound := (if resets (sv_conf s) es then filter (\<lambda>(f, p). f \<noteq> d) else id) (sv_bound s)\<rparr>)"
  by (simp add: accept_loop_run loop_effect_def end_server_run Let_def)

text \<open>Where a round of the loop loses a descriptor or a block.\<close>

definition complete :: "Configs \<Rightarrow> event \<Rightarrow> bool" where
  "complete c e \<longleftrightarrow> (case e of Ev_Ready rd \<Rightarrow> rd_accept rd = Accept_Err \<or> spawns c rd | _ \<Rightarrow> True)"

lemma spawns_cong: "mode_concurrency c = mode_concurrency c' \<Longrightarrow> spawns c rd = spawns c' rd"
  by (simp add: spawns_def)

lemma hup_mode [simp]: "mode_concurrency (hup b c) = mode_concurrency c" "port_number (hup b c) = port_number c"
  "root_dir (hup b c) = root_dir c" "hostname (hup b c) = hostname c" "reset_config (hup b c) = (b \<or> reset_config c)"
  by (simp_all add: hup_def)

lemma spawns_hup [simp]: "spawns (hup b c) rd = spawns c rd"
  by (rule spawns_cong) simp

lemma over_rounds_nothing:
  assumes "\<And>c' rd. mode_concurrency c' = mode_concurrency c \<Longrightarrow> complete c (Ev_Ready rd) \<Longrightarrow> f c' rd = []"
    and "list_all (complete c) es" and "mode_concurrency c' = mode_concurrency c"
  shows "over_rounds f c' es = []"
  using assms(2,3)
proof (induction es arbitrary: c')
  case (Cons e es)
  then show ?case by (cases e) (auto simp: Let_def assms(1))
qed simp

text \<open>Claim C27. When every accepted connection gets its handler, the accepting process keeps neither its
  descriptor nor its blocks, however many connections it serves.\<close>

theorem accept_loop_keeps_nothing:
  assumes "list_all (complete (sv_conf s)) es"
  shows "sv_fds (snd (accept_loop d es s)) =
      (if resets (sv_conf s) es \<and> 0 \<le> d then remove1 d (sv_fds s) else sv_fds s) \<and>
    sv_blks (snd (accept_loop d es s)) = sv_blks s"
proof -
  have "over_rounds lost_fds (sv_conf s) es = []"
    by (rule over_rounds_nothing [OF _ assms])
      (auto simp: complete_def lost_fds_def spawns_def split: accept_res.split)
  moreover have "over_rounds (\<lambda>c rd. rev (lost_blks c rd)) (sv_conf s) es = []"
    by (rule over_rounds_nothing [OF _ assms]) (auto simp: complete_def lost_blks_def spawns_def)
  ultimately show ?thesis
    by (simp add: accept_loop_run loop_effect_def end_server_run Let_def)
qed

definition a_conf :: Configs where
  "a_conf = empty_conf\<lparr>port_number := 7080, mode_concurrency := M_THREAD, root_dir := ''.'',
     hostname := Host_Ip_Buffer\<rparr>"

definition a_server :: server where
  "a_server = \<lparr>sv_conf = a_conf, sv_ip = ''g.org'', sv_dos = 0, sv_cwd = ''/srv/build'', sv_fds = [3], sv_blks = [],
     sv_bound = [(3, 7080)], sv_handlers = [], sv_mutex = True\<rparr>"

definition good_round :: round where
  "good_round = \<lparr>rd_hup = False, rd_accept = Accepted 4 ''10.0.0.7'', rd_name_ok = True,
     rd_args_ok = True, rd_spawn = True\<rparr>"

theorem accept_loop_keeps_nothing_witness:
  "sv_fds (snd (accept_loop 3 [Ev_Ready good_round, Ev_Select_Err, Ev_Ready good_round] a_server)) = [3]"
  using accept_loop_keeps_nothing [of a_server "[Ev_Ready good_round, Ev_Select_Err, Ev_Ready good_round]" 3]
  by (simp add: complete_def spawns_def good_round_def a_server_def a_conf_def)

text \<open>The rounds that lose a connection.\<close>

definition loses :: "Configs \<Rightarrow> event \<Rightarrow> bool" where
  "loses c e \<longleftrightarrow> (case e of
       Ev_Ready rd \<Rightarrow> (\<exists>n name. rd_accept rd = Accepted n name) \<and> \<not> spawns c rd
     | _ \<Rightarrow> False)"

lemma lost_count:
  "mode_concurrency c = mode_concurrency c' \<Longrightarrow> \<not> resets c es \<Longrightarrow>
    length (over_rounds lost_fds c es) = length (filter (loses c') es)"
  by (induction lost_fds c es rule: over_rounds.induct)
    (auto simp: Let_def loses_def lost_fds_def spawns_def split: accept_res.splits)

text \<open>Every connection whose handler cannot be started stays open for ever: the number of
  descriptors of the accepting process grows by the number of those rounds.\<close>

theorem failed_rounds_leak_descriptors:
  assumes "\<not> resets (sv_conf s) es"
  shows "length (sv_fds (snd (accept_loop d es s))) =
    length (sv_fds s) + length (filter (loses (sv_conf s)) es)"
  using assms lost_count [OF refl assms]
  by (simp add: accept_loop_run loop_effect_def Let_def)

theorem failed_rounds_leak_descriptors_witness:
  "length (sv_fds (snd (accept_loop 3 [Ev_Ready (good_round\<lparr>rd_spawn := False\<rparr>),
     Ev_Ready (good_round\<lparr>rd_name_ok := False\<rparr>)] a_server))) = 3"
  using failed_rounds_leak_descriptors [of a_server "[Ev_Ready (good_round\<lparr>rd_spawn := False\<rparr>),
     Ev_Ready (good_round\<lparr>rd_name_ok := False\<rparr>)]" 3]
  by (simp add: loses_def spawns_def good_round_def a_server_def a_conf_def empty_conf_def hup_def)

section \<open>The handlers that the loop starts\<close>

text \<open>The world in which a handler starts: its arguments, the process's globals, nothing sent yet.
  The rest (the client, the allocator, the mutex) is as in \<open>w\<close>.\<close>

definition handler_world :: "server \<Rightarrow> ThreadArgs \<Rightarrow> world \<Rightarrow> world" where
  "handler_world s args w = w\<lparr>w_args := args, ip_buffer := sv_ip s, cwd := sv_cwd s,
     DOS_PROTECTION := sv_dos s, out := [], closes := 0, live := [Blk_Args, Blk_Ip], file_open := False, file_lock := False\<rparr>"

lemma started_by_args:
  "args \<in> set (started_by c rd) \<Longrightarrow> configs args = c \<and> type_Request args = 0 \<and> - 1 \<le> fd args"
  by (auto simp: started_by_def split: if_splits accept_res.splits)

lemma served_args:
  assumes "args \<in> set (served c es)"
  shows "port_number (configs args) = port_number c \<and> hostname (configs args) = hostname c \<and>
    root_dir (configs args) = root_dir c \<and>
    mode_concurrency (configs args) = mode_concurrency c \<and> type_Request args = 0"
  using assms
proof (induction es arbitrary: c)
  case (Cons e es)
  then show ?case
    by (cases e) (auto simp: Let_def dest!: started_by_args Cons.IH split: if_splits)
qed simp

lemma forked_child_ends:
  assumes "wp (handle_request env) (request_ends w) w"
  shows "wp (forked_child env) (request_ends w) w"
  unfolding forked_child_def thenM_def
  by (rule wp_seqI [OF assms]) (auto simp: request_ends_def)



text \<open>When \<open>accept\<close> is interrupted the loop starts a handler for the descriptor -1. It ends
  without having sent a byte.\<close>

theorem interrupted_accept_handler:
  assumes "rd_accept rd = Accept_Intr stale" and "args \<in> set (started_by c rd)" and "oom w = []"
  shows "wp (handle_request env) (\<lambda>r w'. out w' = [] \<and> holds {} w' \<and> closes w' = 0 \<and>
    r = (if mode_concurrency c = M_THREAD then Thread_Exit else Exit 0)) (handler_world s args w)"
proof -
  have args: "fd args = - 1" "configs args = c" "type_Request args = 0"
    using assms(1,2) by (auto simp: started_by_def split: if_splits)
  let ?w = "handler_world s args w"
  let ?w1 = "?w\<lparr>live := [Blk_Buf, Blk_Args, Blk_Ip]\<rparr>"
  have read: "read_loop clean_request (replicate (BUFFER_SIZE + 1) NUL) 0 ?w1 =
      (clean_request False True :: (world, int \<times> char list) prog) ?w1"
    by (subst read_loop.simps)
      (simp add: bindM_def recvM_def sock_usable_def handler_world_def args del: replicate_Suc)
  have "socket_read_request ?w = (clean_request False True :: (world, int \<times> char list) prog) ?w1"
    unfolding socket_read_request_def
    by (simp add: bindM_def callocM_def handler_world_def assms(3) del: replicate_Suc)
      (use read in \<open>simp add: handler_world_def del: replicate_Suc\<close>)
  also have "\<dots> = ((if mode_concurrency c = M_THREAD then Thread_Exit else Exit 0), ?w\<lparr>live := []\<rparr>)"
    by (simp add: clean_request_def bindM_def thenM_def freeM_def handler_world_def args)
  finally show ?thesis
    by (simp add: handle_request_def wp_def bindM_def handler_world_def owns_def)
qed

theorem interrupted_accept_handler_witness:
  "\<exists>args w. fd args = - 1 \<and> wp (handle_request (small_file ''x'')) (\<lambda>r w'. out w' = []) (handler_world a_server args w)"
proof -
  let ?rd = "good_round\<lparr>rd_accept := Accept_Intr ''0.0.0.0''\<rparr>"
  let ?args = "\<lparr>fd = - 1, configs = a_conf, ip_client = ''0.0.0.0'', type_Request = 0\<rparr>"
  have "?args \<in> set (started_by a_conf ?rd)"
    by (simp add: started_by_def spawns_def good_round_def a_conf_def)
  then have "wp (handle_request (small_file ''x'')) (\<lambda>r w'. out w' = []) (handler_world a_server ?args (client_world []))"
    using interrupted_accept_handler [of ?rd "''0.0.0.0''" ?args a_conf "client_world []" "small_file ''x''" a_server]
    by (simp add: wp_def split_beta)
  then show ?thesis by (intro exI [of _ ?args]) auto
qed

section \<open>Starting the listening socket\<close>

definition net_ok :: "net \<Rightarrow> 32 word \<Rightarrow> bool" where
  "net_ok net port \<longleftrightarrow> 0 \<le> n_socket net \<and> n_setsockopt net \<and> n_bind net (ucast port) \<and> n_listen net"

lemma start_server_run:
  "net_ok net port \<Longrightarrow> 0 < q \<Longrightarrow> start_server net port q s = (Ret (n_socket net),
     s\<lparr>sv_fds := n_socket net # sv_fds s, sv_bound := (n_socket net, ucast port) # sv_bound s\<rparr>)"
  by (simp add: net_ok_def start_server_def server_ops Let_def)

lemma linux_socket_run:
  assumes "net_ok net (port_number (sv_conf s))"
  shows "linux_socket net es s = accept_loop (n_socket net) es
    (s\<lparr>sv_fds := n_socket net # sv_fds s,
       sv_bound := (n_socket net, ucast (port_number (sv_conf s))) # sv_bound s\<rparr>)"
  using assms start_server_run [OF assms, of CONNECTION_QUEUE s]
  by (simp add: linux_socket_def bindM_def CONNECTION_QUEUE_def net_ok_def)

text \<open>\<open>start_server\<close> gives a descriptor exactly when the queue is not empty and every call
  succeeds; then that socket is bound to the low 16 bits of the port. When a call after
  \<open>socket\<close> fails it gives -1 and the new descriptor stays open.\<close>

theorem start_server_cases:
  assumes "n_socket net = - 1 \<or> 0 \<le> n_socket net"
  shows "wp (start_server net port q) (\<lambda>r s'.
      (if net_ok net port \<and> 0 < q
       then r = Ret (n_socket net) \<and> sv_fds s' = n_socket net # sv_fds s \<and>
         (\<exists>p. sv_bound s' = (n_socket net, p) # sv_bound s \<and> uint p = uint port mod 65536)
       else r = Ret (- 1) \<and>
         sv_fds s' = (if 0 < q \<and> n_socket net \<noteq> - 1 then n_socket net # sv_fds s else sv_fds s))) s"
proof (cases "net_ok net port \<and> 0 < q")
  case True
  have "uint (ucast port :: 16 word) = uint port mod 65536"
    by (simp add: unsigned_ucast_eq take_bit_eq_mod)
  with True show ?thesis using start_server_run [of net port q s] by (simp add: wp_def)
next
  case False
  then show ?thesis
    using assms by (auto simp: net_ok_def start_server_def wp_def server_ops Let_def)
qed

definition a_net :: net where
  "a_net = \<lparr>n_socket = 3, n_setsockopt = True, n_bind = (\<lambda>p. True), n_listen = True\<rparr>"

theorem start_server_cases_witness:
  "wp (start_server a_net (- 1) 5000) (\<lambda>r s'. \<exists>p. sv_bound s' = (3, p) # sv_bound a_server \<and> uint p = 65535) a_server"
proof -
  have "uint (- 1 :: 32 word) mod 65536 = 65535"
    by (simp add: unsigned_minus_1_eq_mask mask_eq_exp_minus_1)
  then show ?thesis
    using start_server_cases [of a_net "- 1" 5000 a_server]
    by (auto simp: wp_def split_beta net_ok_def a_net_def)
qed

section \<open>Reloading the configuration\<close>

text \<open>Without a signal during \<open>select\<close> the loop goes on for ever.\<close>

definition no_signal :: "event \<Rightarrow> bool" where
  "no_signal e \<longleftrightarrow> (case e of Ev_Signal n \<Rightarrow> False | _ \<Rightarrow> True)"

lemma no_signal_resets: "list_all no_signal es \<Longrightarrow> \<not> resets c es"
  by (induction c es rule: resets.induct) (simp_all add: no_signal_def)

lemma reset_stays: "list_all no_signal es \<Longrightarrow> reset_config c \<Longrightarrow> reset_config (conf_after c es)"
  by (induction c es rule: conf_after.induct) (simp_all add: no_signal_def)

text \<open>A \<open>SIGHUP\<close> that arrives while a connection is being accepted sets the flag, but the loop
  looks at the flag only when a signal interrupts \<open>select\<close>: it goes on serving with the old
  configuration for as long as no further signal comes.\<close>

theorem sighup_during_accept_ignored:
  assumes "rd_hup rd" and "list_all no_signal es"
  shows "fst (accept_loop d (Ev_Ready rd # es) s) = Blocked \<and>
    reset_config (sv_conf (snd (accept_loop d (Ev_Ready rd # es) s))) \<and>
    sv_handlers (snd (accept_loop d (Ev_Ready rd # es) s)) =
      sv_handlers s @ served (sv_conf s) (Ev_Ready rd # es)"
proof -
  have "\<not> resets (hup True (sv_conf s)) es" using assms(2) by (rule no_signal_resets)
  moreover have "reset_config (conf_after (hup True (sv_conf s)) es)"
    using assms(2) by (rule reset_stays) simp
  ultimately show ?thesis
    using assms(1) by (simp add: accept_loop_run loop_effect_def Let_def del: accept_loop.simps)
qed

theorem sighup_during_accept_ignored_witness:
  "fst (accept_loop 3 [Ev_Ready (good_round\<lparr>rd_hup := True\<rparr>), Ev_Ready good_round] a_server) = Blocked"
  using sighup_during_accept_ignored [of "good_round\<lparr>rd_hup := True\<rparr>" "[Ev_Ready good_round]" 3 a_server]
  by (simp add: no_signal_def del: accept_loop.simps)

text \<open>The outer loop of \<open>main\<close>: one life of the server ends with a reset, after which the
  configuration file is read again. The status that the parser returns is not looked at.\<close>

definition reload :: "(nat \<Rightarrow> bool) \<Rightarrow> string option \<Rightarrow> (server, int) prog" where
  "reload mem content = (\<lambda>s. case conf_parseConfigFile mem content (sv_conf s) (sv_ip s) of
       Ret (n, c, ip) \<Rightarrow> (Ret n, s\<lparr>sv_conf := c, sv_ip := ip\<rparr>)
     | Exit n \<Rightarrow> (Exit n, s) | Thread_Exit \<Rightarrow> (Thread_Exit, s) | Killed n \<Rightarrow> (Killed n, s)
     | UB e \<Rightarrow> (UB e, s) | Blocked \<Rightarrow> (Blocked, s))"

record life =
  lf_net :: net
  lf_events :: "event list"
  lf_mem :: "nat \<Rightarrow> bool"
  lf_content :: "string option"

text \<open>\<open>fin\<close> is the life after the listed ones, of which only the events are known.\<close>

fun run_lives :: "life \<Rightarrow> life list \<Rightarrow> (server, int) prog" where
  "run_lives fin [] = linux_socket (lf_net fin) (lf_events fin)"
| "run_lives fin (l # ls) =
     bindM (linux_socket (lf_net l) (lf_events l)) (\<lambda>_.
     thenM (modM (\<lambda>s. s\<lparr>sv_conf := (sv_conf s)\<lparr>reset_config := False\<rparr>\<rparr>))
     (thenM (reload (lf_mem l) (lf_content l)) (run_lives fin ls)))"

text \<open>\<open>f1\<close> and \<open>f2\<close> are what the two calls of \<open>fork\<close> return.\<close>

definition run_in_daemon :: "int \<Rightarrow> int \<Rightarrow> int res" where
  "run_in_daemon f1 f2 =
     (if f1 < 0 then Exit (- 1)
      else if f1 > 1 then Exit 0
      else if f2 < 0 then Exit (- 1)
      else if f2 > 1 then Exit 0
      else Ret 0)"

definition read_options :: "int res \<Rightarrow> string list \<Rightarrow> (server, int) prog" where
  "read_options daemon argv = (\<lambda>s. case conf_read_opt daemon argv
         \<lparr>o_conf = sv_conf s, o_ip = sv_ip s, o_dos = sv_dos s, o_daemon = False\<rparr> of
       Ret (n, st) \<Rightarrow> (Ret n, s\<lparr>sv_conf := o_conf st, sv_ip := o_ip st, sv_dos := o_dos st\<rparr>)
     | Exit n \<Rightarrow> (Exit n, s) | Thread_Exit \<Rightarrow> (Thread_Exit, s) | Killed n \<Rightarrow> (Killed n, s)
     | UB e \<Rightarrow> (UB e, s) | Blocked \<Rightarrow> (Blocked, s))"

text \<open>\<open>main\<close> on Linux, whose first statement clears \<open>DOS_PROTECTION\<close>. \<open>dir\<close> is the working directory,
  \<open>calls\<close> are the results of the calls that set the log process up.\<close>

definition main_linux :: "(nat \<Rightarrow> bool) \<Rightarrow> string option \<Rightarrow> int \<Rightarrow> int \<Rightarrow> string list \<Rightarrow> string option \<Rightarrow>
    bool list \<Rightarrow> life \<Rightarrow> life list \<Rightarrow> (server, int) prog" where
  "main_linux mem content f1 f2 argv dir calls fin ls =
     thenM (modM (\<lambda>s. s\<lparr>sv_dos := 0, sv_conf := (sv_conf s)\<lparr>reset_config := False\<rparr>\<rparr>))
     (thenM (reload mem content)
     (bindM (read_options (run_in_daemon f1 f2) argv) (\<lambda>r.
      if r \<noteq> 0 then retM 1
      else bindM (stopM (ut_get_cwd dir)) (\<lambda>d.
        thenM (modM (\<lambda>s. s\<lparr>sv_cwd := d\<rparr>))
        (thenM (stopM (socket_pipe_single_process calls))
        (thenM start_mutex (run_lives fin ls)))))))"

subsection \<open>A life that ends with a reset\<close>

lemma append_events:
  assumes "\<not> resets c es"
  shows "resets c (es @ fs) = resets (conf_after c es) fs"
    and "conf_after c (es @ fs) = conf_after (conf_after c es) fs"
    and "over_rounds f c (es @ fs) = over_rounds f c es @ over_rounds f (conf_after c es) fs"
proof -
  show "resets c (es @ fs) = resets (conf_after c es) fs"
    using assms by (induction c es rule: resets.induct) (auto simp: Let_def)
  show "conf_after c (es @ fs) = conf_after (conf_after c es) fs"
    using assms by (induction c es rule: resets.induct) (auto simp: Let_def)
  show "over_rounds f c (es @ fs) = over_rounds f c es @ over_rounds f (conf_after c es) fs"
    using assms by (induction c es rule: resets.induct) (auto simp: Let_def)
qed

lemma conf_after_reset [simp]: "(conf_after c es)\<lparr>reset_config := b\<rparr> = c\<lparr>reset_config := b\<rparr>"
  by (induction c es rule: conf_after.induct) (auto simp: Let_def hup_def)

lemma sighup_life:
  assumes "net_ok net (port_number (sv_conf s))" and "\<not> resets (sv_conf s) es"
  shows "linux_socket net (es @ [Ev_Signal SIGHUP]) s = (Ret (- 1),
    s\<lparr>sv_conf := (sv_conf s)\<lparr>reset_config := True\<rparr>,
      sv_handlers := sv_handlers s @ served (sv_conf s) es,
      sv_fds := remove1 (n_socket net) (leaked_fds (sv_conf s) es @ n_socket net # sv_fds s),
      sv_blks := leaked_blks (sv_conf s) es @ sv_blks s,
      sv_bound := filter (\<lambda>(f, p). f \<noteq> n_socket net) (sv_bound s)\<rparr>)"
  using assms
  by (simp add: linux_socket_run accept_loop_run loop_effect_def Let_def end_server_run append_events
      hup_def net_ok_def del: accept_loop.simps)

lemma reload_step:
  assumes "conf_parseConfigFile mem content (sv_conf s) (sv_ip s) = Ret (n, c, ip)"
  shows "reload mem content s = (Ret n, s\<lparr>sv_conf := c, sv_ip := ip\<rparr>)"
  using assms by (simp add: reload_def)

text \<open>The host name in a handler's arguments is a pointer. A thread that is still running finds in it
  what the global buffer of its process holds by then (a child process has a copy of the buffer).\<close>

definition host_read :: "server \<Rightarrow> ThreadArgs \<Rightarrow> string option" where
  "host_read s args = (case hostname (configs args) of
       Host_Unset \<Rightarrow> None | Host_Ip_Buffer \<Rightarrow> Some (sv_ip s))"

text \<open>Claim C11. A \<open>SIGHUP\<close> during \<open>select\<close> with a valid configuration file: the listening socket is
  closed (of this life only the descriptors of its failed rounds are still open) and its port
  released, and the next life runs with the port, mode, root directory and host name of the file.
  The argument structs of the handlers that were started are not touched, so they keep their port,
  mode and root directory; but their host name is a pointer to the global buffer that the reload
  overwrites, so a thread that is still running goes on with the new host name. The transfer mutex
  is not set up anew, also when the mode changes to threads.\<close>

theorem sighup_reloads:
  assumes "net_ok (lf_net l) (port_number (sv_conf s))" and "lf_events l = es @ [Ev_Signal SIGHUP]"
    and "\<not> resets (sv_conf s) es" and "\<forall>n. lf_mem l n" and "lf_content l = Some (render opts)"
    and "list_all wf_opt opts" and "each_once opts"
    and "{Opt_Port p, Opt_Mode m, Opt_Root d, Opt_Ip h} \<subseteq> set opts"
  shows "\<exists>s'. run_lives fin (l # ls) s = run_lives fin ls s' \<and>
    sv_conf s' = (sv_conf s)\<lparr>port_number := word_of_int p, mode_concurrency := m,
      root_dir := take BUFFER_SIZE d, used_OPTARG := 0, reset_config := False, hostname := Host_Ip_Buffer\<rparr> \<and>
    sv_ip s' = h \<and> n_socket (lf_net l) \<notin> fst ` set (sv_bound s') \<and>
    mset (sv_fds s') = mset (leaked_fds (sv_conf s) es) + mset (sv_fds s) \<and>
    sv_handlers s' = sv_handlers s @ served (sv_conf s) es \<and>
    (hostname (sv_conf s) = Host_Ip_Buffer \<longrightarrow>
      (\<forall>args\<in>set (served (sv_conf s) es). host_read s' args = Some h)) \<and>
    sv_mutex s' = sv_mutex s"
proof -
  obtain s1 where s1: "linux_socket (lf_net l) (lf_events l) s = (Ret (- 1), s1)" and
    f1: "sv_conf s1 = (sv_conf s)\<lparr>reset_config := True\<rparr>" "sv_mutex s1 = sv_mutex s"
      "sv_handlers s1 = sv_handlers s @ served (sv_conf s) es"
      "sv_bound s1 = filter (\<lambda>(f, p). f \<noteq> n_socket (lf_net l)) (sv_bound s)"
      "mset (sv_fds s1) = mset (leaked_fds (sv_conf s) es) + mset (sv_fds s)"
    using sighup_life [OF assms(1,3)] assms(2) by simp
  let ?s2 = "s1\<lparr>sv_conf := (sv_conf s1)\<lparr>reset_config := False\<rparr>\<rparr>"
  obtain s3 where s3: "reload (lf_mem l) (lf_content l) ?s2 = (Ret 0, s3)" and
    f3: "s3 = ?s2\<lparr>sv_conf := (sv_conf ?s2)\<lparr>port_number := word_of_int p, mode_concurrency := m,
      root_dir := take BUFFER_SIZE d, hostname := Host_Ip_Buffer, used_OPTARG := 0\<rparr>, sv_ip := h\<rparr>"
    unfolding assms(5)
    using reload_step [OF parse_render_accepts [OF assms(4,6-8), of "sv_conf ?s2" "sv_ip ?s2"]] by blast
  have "run_lives fin (l # ls) s = run_lives fin ls s3"
    using s1 s3 by (simp add: bindM_def thenM_def)
  then show ?thesis
    using served_args [of _ "sv_conf s" es]
    by (intro exI [of _ s3] conjI) (auto simp: f3 f1 host_read_def)
qed

definition a_life :: life where
  "a_life = \<lparr>lf_net = a_net, lf_events = [Ev_Ready good_round, Ev_Signal SIGHUP], lf_mem = (\<lambda>_. True),
     lf_content = Some (render sample_opts)\<rparr>"

theorem sighup_reloads_witness:
  "\<exists>s'. run_lives a_life [a_life] a_server = run_lives a_life [] s' \<and> sv_ip s' = ''g.org''"
proof -
  have "\<not> resets (sv_conf a_server) [Ev_Ready good_round]" by (simp add: no_signal_resets no_signal_def)
  then have "\<exists>s'. run_lives a_life [a_life] a_server = run_lives a_life [] s' \<and>
      sv_conf s' = (sv_conf a_server)\<lparr>port_number := word_of_int 7080, mode_concurrency := M_THREAD,
        root_dir := take BUFFER_SIZE ''.'', used_OPTARG := 0, reset_config := False, hostname := Host_Ip_Buffer\<rparr> \<and>
      sv_ip s' = ''g.org'' \<and> n_socket (lf_net a_life) \<notin> fst ` set (sv_bound s') \<and>
      mset (sv_fds s') = mset (leaked_fds (sv_conf a_server) [Ev_Ready good_round]) + mset (sv_fds a_server) \<and>
      sv_handlers s' = sv_handlers a_server @ served (sv_conf a_server) [Ev_Ready good_round] \<and>
      (hostname (sv_conf a_server) = Host_Ip_Buffer \<longrightarrow>
        (\<forall>args\<in>set (served (sv_conf a_server) [Ev_Ready good_round]). host_read s' args = Some ''g.org'')) \<and>
      sv_mutex s' = sv_mutex a_server"
    by (intro sighup_reloads [where opts = sample_opts])
      (simp_all add: a_life_def net_ok_def a_net_def sample_opts_def plain_def each_once_def once_def BUFFER_SIZE_def)
  then show ?thesis by blast
qed

text \<open>Claim C39. A \<open>SIGHUP\<close> with a configuration file that lacks an option or has it twice, or without a
  readable file, ends the whole server.\<close>

theorem sighup_bad_file_ends_server:
  assumes "net_ok (lf_net l) (port_number (sv_conf s))" and "lf_events l = es @ [Ev_Signal SIGHUP]"
    and "\<not> resets (sv_conf s) es" and "\<forall>n. lf_mem l n"
    and "lf_content l = None \<or> (\<exists>opts. lf_content l = Some (render opts) \<and> list_all wf_opt opts \<and> \<not> each_once opts)"
  shows "\<exists>n. n \<noteq> 0 \<and> fst (run_lives fin (l # ls) s) = Exit n"
proof -
  obtain s1 where s1: "linux_socket (lf_net l) (lf_events l) s = (Ret (- 1), s1)"
    using sighup_life [OF assms(1,3)] assms(2) by simp
  have "\<exists>n. n \<noteq> 0 \<and> conf_parseConfigFile (lf_mem l) (lf_content l) c ip = Exit n" for c ip
    using assms(5) parse_render_rejects [OF assms(4)]
    by (auto simp: conf_parseConfigFile_def Assert_def)
  then obtain n where n: "n \<noteq> 0" and "conf_parseConfigFile (lf_mem l) (lf_content l)
      ((sv_conf s1)\<lparr>reset_config := False\<rparr>) (sv_ip s1) = Exit n" by blast
  then show ?thesis
    using s1 by (intro exI [of _ n]) (simp add: bindM_def thenM_def reload_def)
qed

theorem sighup_bad_file_ends_server_witness:
  "\<exists>n. n \<noteq> 0 \<and> fst (run_lives a_life [a_life\<lparr>lf_content := None\<rparr>] a_server) = Exit n"
proof (rule sighup_bad_file_ends_server [where es = "[Ev_Ready good_round]"])
  show "\<not> resets (sv_conf a_server) [Ev_Ready good_round]" by (simp add: no_signal_resets no_signal_def)
qed (simp_all add: a_life_def net_ok_def a_net_def)

section \<open>The whole program\<close>

lemma run_setup_ok: "list_all id ys \<Longrightarrow> run_setup (zip xs ys) = Ret ()"
proof (induction xs arbitrary: ys)
  case (Cons x xs)
  then show ?case by (cases ys) auto
qed simp

lemma read_options_none:
  assumes "sv_ip s \<noteq> []"
  shows "read_options daemon [] s = (Ret 0, s\<lparr>sv_conf := (sv_conf s)\<lparr>hostname := Host_Ip_Buffer\<rparr>\<rparr>)"
  using assms by (simp add: read_options_def conf_read_opt_def Let_def)

lemma start_mutex_run:
  "start_mutex s = (Ret (), s\<lparr>sv_mutex := (sv_mutex s \<or> mode_concurrency (sv_conf s) = M_THREAD)\<rparr>)"
  by (simp add: start_mutex_def bindM_def getM_def whenM_def)

text \<open>The state from which the accept loop runs, when the program has been started without options
  on a valid configuration file.\<close>

definition started_server :: "net \<Rightarrow> int \<Rightarrow> int \<Rightarrow> string \<Rightarrow> string \<Rightarrow> string \<Rightarrow> server \<Rightarrow> server" where
  "started_server net p m d h dir s = s\<lparr>
     sv_dos := 0,
     sv_conf := (sv_conf s)\<lparr>reset_config := False, port_number := word_of_int p, mode_concurrency := m,
       root_dir := take BUFFER_SIZE d, hostname := Host_Ip_Buffer, used_OPTARG := 0\<rparr>,
     sv_ip := h, sv_cwd := dir, sv_mutex := (sv_mutex s \<or> m = M_THREAD),
     sv_fds := n_socket net # sv_fds s,
     sv_bound := (n_socket net, ucast (word_of_int p :: 32 word)) # sv_bound s\<rparr>"

lemma main_linux_run:
  assumes "\<forall>n. mem n" and "list_all wf_opt opts" and "each_once opts"
    and "{Opt_Port p, Opt_Mode m, Opt_Root d, Opt_Ip h} \<subseteq> set opts"
    and "length dir < BUFFER_SIZE" and "list_all id calls" and "net_ok (lf_net fin) (word_of_int p)"
  shows "main_linux mem (Some (render opts)) f1 f2 [] (Some dir) calls fin [] s =
    accept_loop (n_socket (lf_net fin)) (lf_events fin) (started_server (lf_net fin) p m d h dir s)"
proof -
  let ?s1 = "s\<lparr>sv_dos := 0, sv_conf := (sv_conf s)\<lparr>reset_config := False\<rparr>\<rparr>"
  let ?c = "(sv_conf ?s1)\<lparr>port_number := word_of_int p, mode_concurrency := m,
      root_dir := take BUFFER_SIZE d, hostname := Host_Ip_Buffer, used_OPTARG := 0\<rparr>"
  let ?s2 = "?s1\<lparr>sv_conf := ?c, sv_ip := h\<rparr>"
  have load: "reload mem (Some (render opts)) ?s1 = (Ret 0, ?s2)"
    by (rule reload_step) (rule parse_render_accepts [OF assms(1-4)])
  have "wf_opt (Opt_Ip h)" using assms(2,4) by (auto simp: list_all_iff)
  then have "h \<noteq> []" by (simp add: plain_def)
  then have opts: "read_options (run_in_daemon f1 f2) [] ?s2 = (Ret 0, ?s2)"
    using read_options_none [of ?s2] by simp
  have calls: "socket_pipe_single_process calls = Ret ()"
    using assms(6) by (simp add: socket_pipe_single_process_def run_setup_ok)
  let ?s3 = "?s2\<lparr>sv_cwd := dir, sv_mutex := (sv_mutex s \<or> m = M_THREAD)\<rparr>"
  have mutex: "start_mutex (?s2\<lparr>sv_cwd := dir\<rparr>) = (Ret (), ?s3)" by (simp add: start_mutex_run)
  have "main_linux mem (Some (render opts)) f1 f2 [] (Some dir) calls fin [] s =
      linux_socket (lf_net fin) (lf_events fin) ?s3"
    using load opts mutex by (simp add: main_linux_def thenM_def bindM_def calls ut_get_cwd_def assms(5))
  then show ?thesis
    using assms(7) by (simp add: linux_socket_run started_server_def)
qed

lemma started_server_conf [simp]:
  "sv_handlers (started_server net p m d h dir s) = sv_handlers s"
  "sv_ip (started_server net p m d h dir s) = h"
  "sv_cwd (started_server net p m d h dir s) = dir"
  "sv_dos (started_server net p m d h dir s) = 0"
  "port_number (sv_conf (started_server net p m d h dir s)) = word_of_int p"
  "mode_concurrency (sv_conf (started_server net p m d h dir s)) = m"
  "root_dir (sv_conf (started_server net p m d h dir s)) = take BUFFER_SIZE d"
  "hostname (sv_conf (started_server net p m d h dir s)) = Host_Ip_Buffer"
  "\<not> reset_config (sv_conf (started_server net p m d h dir s))"
  by (simp_all add: started_server_def)

text \<open>When no signal comes, the loop changes only the handlers and what failed rounds lose.\<close>

lemma accept_loop_no_signal:
  assumes "list_all no_signal es"
  shows "fst (accept_loop d es s) = Blocked \<and>
    sv_handlers (snd (accept_loop d es s)) = sv_handlers s @ served (sv_conf s) es \<and>
    sv_ip (snd (accept_loop d es s)) = sv_ip s \<and> sv_cwd (snd (accept_loop d es s)) = sv_cwd s \<and>
    sv_bound (snd (accept_loop d es s)) = sv_bound s \<and> sv_dos (snd (accept_loop d es s)) = sv_dos s"
  using no_signal_resets [OF assms]
  by (simp add: accept_loop_run loop_effect_def Let_def del: accept_loop.simps)

text \<open>Claim C2. The program without options, with a valid configuration file: it listens on the port of
  the file (its low 16 bits), starts for every connection the handler that is its due, with the
  configuration of the file and in the order of the connections, and serves for ever when no signal
  comes.\<close>

theorem main_serves:
  assumes "\<forall>n. mem n" and "list_all wf_opt opts" and "each_once opts"
    and "{Opt_Port p, Opt_Mode m, Opt_Root d, Opt_Ip h} \<subseteq> set opts"
    and "length dir < BUFFER_SIZE" and "list_all id calls" and "net_ok (lf_net fin) (word_of_int p)"
    and "list_all no_signal (lf_events fin)" and "sv_bound s = []" and "sv_handlers s = []"
  shows "\<exists>c s'. main_linux mem (Some (render opts)) f1 f2 [] (Some dir) calls fin [] s = (Blocked, s') \<and>
    port_number c = word_of_int p \<and> mode_concurrency c = m \<and> root_dir c = take BUFFER_SIZE d \<and>
    hostname c = Host_Ip_Buffer \<and> \<not> reset_config c \<and> sv_ip s' = h \<and> sv_cwd s' = dir \<and>
    sv_handlers s' = served c (lf_events fin) \<and>
    sv_bound s' = [(n_socket (lf_net fin), ucast (word_of_int p :: 32 word))]"
proof -
  let ?s0 = "started_server (lf_net fin) p m d h dir s"
  let ?r = "accept_loop (n_socket (lf_net fin)) (lf_events fin) ?s0"
  have run: "main_linux mem (Some (render opts)) f1 f2 [] (Some dir) calls fin [] s = (Blocked, snd ?r)"
    using accept_loop_no_signal [OF assms(8), of _ ?s0] main_linux_run [OF assms(1-7)]
    by (simp add: prod_eq_iff)
  have "sv_bound ?s0 = [(n_socket (lf_net fin), ucast (word_of_int p :: 32 word))]"
    using assms(9) by (simp add: started_server_def)
  then show ?thesis
    unfolding run using accept_loop_no_signal [OF assms(8), of _ ?s0] assms(10)
    by (intro exI [of _ "sv_conf ?s0"] exI [of _ "snd ?r"]) simp
qed

theorem main_serves_witness:
  "\<exists>c s'. main_linux (\<lambda>_. True) (Some (render sample_opts)) 0 0 [] (Some ''/srv'') (replicate 12 True)
     (a_life\<lparr>lf_events := [Ev_Ready good_round]\<rparr>) [] (a_server\<lparr>sv_bound := []\<rparr>) = (Blocked, s') \<and>
     port_number c = word_of_int 7080 \<and> sv_handlers s' = served c [Ev_Ready good_round]"
  using main_serves [of "\<lambda>_. True" sample_opts 7080 M_THREAD "''.''" "''g.org''" "''/srv''" "replicate 12 True"
      "a_life\<lparr>lf_events := [Ev_Ready good_round]\<rparr>" "a_server\<lparr>sv_bound := []\<rparr>" 0 0]
  by (simp add: sample_opts_def plain_def each_once_def once_def BUFFER_SIZE_def list_all_iff
      a_life_def net_ok_def a_net_def no_signal_def a_server_def) blast

section \<open>The address of the server\<close>

text \<open>An interface: its name, its address family (no value when it has no address), and what
  \<open>inet_ntop\<close> makes of an IPv4 address.\<close>

record iface =
  if_name :: string
  if_family :: "int option"
  if_text :: "string option"

definition AF_INET :: int where "AF_INET = 2"

text \<open>The address that is chosen: not of a docker interface, a dot as the fourth character, not a
  loopback address.\<close>

definition chosen_address :: "string \<Rightarrow> string \<Rightarrow> bool" where
  "chosen_address name addrp \<longleftrightarrow> \<not> strncmp_eq name ''docker'' 6 \<and>
     (3 < length addrp \<and> addrp ! 3 = CHR ''.'') \<and> \<not> strncmp_eq addrp ''127.0'' 5"

text \<open>The NUL is stored at \<open>ip_buffer[BUFFER_SIZE]\<close>, one byte behind the array.\<close>

fun scan_ifaces :: "iface list \<Rightarrow> string \<Rightarrow> string res" where
  "scan_ifaces [] ip = Ret ip"
| "scan_ifaces (i # ifs) ip = (case if_family i of
       None \<Rightarrow> UB Null_Deref
     | Some af \<Rightarrow>
         if af \<noteq> AF_INET then scan_ifaces ifs ip
         else (case if_text i of
             None \<Rightarrow> scan_ifaces ifs ip
           | Some addrp \<Rightarrow> if chosen_address (if_name i) addrp
               then bind_res (if BUFFER_SIZE < BUFFER_SIZE then Ret () else UB Out_Of_Bounds)
                 (\<lambda>_. Ret (strncpy addrp (BUFFER_SIZE - 1)))
               else scan_ifaces ifs ip))"

definition getServerIP :: "iface list option \<Rightarrow> string \<Rightarrow> (int \<times> string) res" where
  "getServerIP iflist ip = (case iflist of
       None \<Rightarrow> Ret (1, ip)
     | Some ifs \<Rightarrow> bind_res (scan_ifaces ifs ip) (\<lambda>ip'. Ret (0, ip')))"

text \<open>\<open>getServerIP\<close> never stores an address: as soon as an interface has a suitable one, the
  terminating NUL is written one byte behind \<open>ip_buffer\<close>; without such an interface the buffer is
  unchanged. (\<open>main\<close> does not call it.)\<close>

theorem getServerIP_overflows:
  assumes "\<forall>i \<in> set ifs. if_family i \<noteq> None"
  shows "getServerIP (Some ifs) ip =
    (if \<exists>i \<in> set ifs. if_family i = Some AF_INET \<and> (\<exists>a. if_text i = Some a \<and> chosen_address (if_name i) a)
     then UB Out_Of_Bounds else Ret (0, ip))"
proof -
  have "scan_ifaces ifs ip =
    (if \<exists>i \<in> set ifs. if_family i = Some AF_INET \<and> (\<exists>a. if_text i = Some a \<and> chosen_address (if_name i) a)
     then UB Out_Of_Bounds else Ret ip)"
    using assms by (induction ifs) (auto split: option.splits)
  then show ?thesis by (simp add: getServerIP_def)
qed

theorem getServerIP_overflows_witness:
  "getServerIP (Some [\<lparr>if_name = ''eth0'', if_family = Some 2, if_text = Some ''192.168.1.4''\<rparr>]) [] = UB Out_Of_Bounds"
  using getServerIP_overflows [of "[\<lparr>if_name = ''eth0'', if_family = Some 2, if_text = Some ''192.168.1.4''\<rparr>]" "[]"]
  by (simp add: AF_INET_def chosen_address_def strncmp_eq_def)

end
