(* ===== verification/LogMulti.thy ===== *)
theory LogMulti
  imports LogPipe
begin

text \<open>
  \<open>linux/lib/pipe/linux_pipe.c\<close>, the variant with one log process per message, which
  \<open>LOG_WITH_MULTIPLE_PROCESS\<close> selects: \<open>socket_pipe_multiple_process\<close> starts the process and waits for its
  token, then the same handler calls \<open>socket_pipe_log_server\<close>. Both sides are functions from a state
  to the next one, one system call each; \<open>multi_step\<close> interleaves them.
\<close>

section \<open>Setting up\<close>

text \<open>The status of the \<open>exit\<close> behind each failing call, in the order of the calls.\<close>

definition multi_exits :: "int list" where
  "multi_exits = [1, - 1, 1,  1, - 1, 1,  - 1, - 1, - 1]"

definition socket_pipe_multiple_setup :: "bool list \<Rightarrow> unit res" where
  "socket_pipe_multiple_setup calls = run_setup (zip multi_exits calls)"

text \<open>The first failing call decides the status, and none fails when the set-up goes through.\<close>

lemma run_setup_first_failure:
  "run_setup (zip (xs @ x # ys) (replicate (length xs) True @ False # bs)) = Exit x"
  by (induction xs) simp_all

section \<open>One message\<close>

datatype mchild =
    MC_Lock | MC_Token | MC_Wait
  | MC_Waiting        \<comment> \<open>asleep, the mutex released\<close>
  | MC_Woken          \<comment> \<open>signalled, before it has the mutex again\<close>
  | MC_Open | MC_Read | MC_Log string | MC_Unlock
  | MC_Exit           \<comment> \<open>after \<open>exit (0)\<close>\<close>
  | MC_Dead           \<comment> \<open>after \<open>exit (-1)\<close>\<close>

datatype mserver = MS_Token | MS_Lock | MS_Write | MS_Signal | MS_Unlock | MS_Done

datatype mowner = M_Child | M_Server

record multi =
  mc :: mchild
  ms :: mserver
  m_mutex :: "mowner option"
  m_token :: bool
  m_msgs :: "string list"
  m_log :: string

definition multi_init :: "string \<Rightarrow> multi" where
  "multi_init log = \<lparr>mc = MC_Lock, ms = MS_Token, m_mutex = None, m_token = False, m_msgs = [], m_log = log\<rparr>"

definition multi_line :: "string \<Rightarrow> string" where
  "multi_line m = ''Byte '' @ m @ [NL]"

text \<open>\<open>opens\<close>: the log file can be opened.\<close>

definition multi_child :: "bool \<Rightarrow> multi \<Rightarrow> multi option" where
  "multi_child opens s = (case mc s of
       MC_Lock \<Rightarrow> if m_mutex s = None then Some (s\<lparr>mc := MC_Token, m_mutex := Some M_Child\<rparr>) else None
     | MC_Token \<Rightarrow> Some (s\<lparr>mc := MC_Wait, m_token := True\<rparr>)
     | MC_Wait \<Rightarrow> Some (s\<lparr>mc := MC_Waiting, m_mutex := None\<rparr>)
     | MC_Waiting \<Rightarrow> None
     | MC_Woken \<Rightarrow> if m_mutex s = None then Some (s\<lparr>mc := MC_Open, m_mutex := Some M_Child\<rparr>) else None
     | MC_Open \<Rightarrow> Some (s\<lparr>mc := (if opens then MC_Read else MC_Dead)\<rparr>)
     | MC_Read \<Rightarrow> (case m_msgs s of [] \<Rightarrow> None | m # rest \<Rightarrow> Some (s\<lparr>mc := MC_Log m, m_msgs := rest\<rparr>))
     | MC_Log m \<Rightarrow> Some (s\<lparr>mc := MC_Unlock, m_log := m_log s @ multi_line m\<rparr>)
     | MC_Unlock \<Rightarrow> Some (s\<lparr>mc := MC_Exit, m_mutex := None\<rparr>)
     | MC_Exit \<Rightarrow> None
     | MC_Dead \<Rightarrow> None)"

definition multi_server :: "string \<Rightarrow> multi \<Rightarrow> multi option" where
  "multi_server msg s = (case ms s of
       MS_Token \<Rightarrow> if m_token s then Some (s\<lparr>ms := MS_Lock, m_token := False\<rparr>) else None
     | MS_Lock \<Rightarrow> if m_mutex s = None then Some (s\<lparr>ms := MS_Write, m_mutex := Some M_Server\<rparr>) else None
     | MS_Write \<Rightarrow> Some (s\<lparr>ms := MS_Signal, m_msgs := m_msgs s @ [msg]\<rparr>)
     | MS_Signal \<Rightarrow> Some (s\<lparr>ms := MS_Unlock, mc := (if mc s = MC_Waiting then MC_Woken else mc s)\<rparr>)
     | MS_Unlock \<Rightarrow> Some (s\<lparr>ms := MS_Done, m_mutex := None\<rparr>)
     | MS_Done \<Rightarrow> None)"

definition multi_step :: "bool \<Rightarrow> string \<Rightarrow> multi \<Rightarrow> multi \<Rightarrow> bool" where
  "multi_step opens msg s t \<longleftrightarrow> multi_child opens s = Some t \<or> multi_server msg s = Some t"

subsection \<open>All its states\<close>

text \<open>The states after each number of steps. Only the order of the child's wait and the server's
  read of the token is open.\<close>

definition multi_at :: "bool \<Rightarrow> string \<Rightarrow> string \<Rightarrow> multi list list" where
  "multi_at opens msg log = (let st = (\<lambda>c p m t q l. \<lparr>mc = c, ms = p, m_mutex = m, m_token = t, m_msgs = q, m_log = l\<rparr>);
       l' = log @ multi_line msg in
     [[st MC_Lock MS_Token None False [] log],
      [st MC_Token MS_Token (Some M_Child) False [] log],
      [st MC_Wait MS_Token (Some M_Child) True [] log],
      [st MC_Wait MS_Lock (Some M_Child) False [] log, st MC_Waiting MS_Token None True [] log],
      [st MC_Waiting MS_Lock None False [] log],
      [st MC_Waiting MS_Write (Some M_Server) False [] log],
      [st MC_Waiting MS_Signal (Some M_Server) False [msg] log],
      [st MC_Woken MS_Unlock (Some M_Server) False [msg] log],
      [st MC_Woken MS_Done None False [msg] log],
      [st MC_Open MS_Done (Some M_Child) False [msg] log],
      [st (if opens then MC_Read else MC_Dead) MS_Done (Some M_Child) False [msg] log]] @
     (if \<not> opens then [] else
      [[st (MC_Log msg) MS_Done (Some M_Child) False [] log],
       [st MC_Unlock MS_Done (Some M_Child) False [] l'],
       [st MC_Exit MS_Done None False [] l']]))"

lemma length_multi_at: "length (multi_at opens msg log) = (if opens then 14 else 11)"
  by (simp add: multi_at_def Let_def)

text \<open>Steps lead from each of these lists to the next one, and only from the last there is none.\<close>

lemma multi_at_closed:
  "list_all (\<lambda>(xs, ys). list_all (\<lambda>s.
      (\<forall>t. multi_step opens msg s t \<longrightarrow> t \<in> set ys) \<and>
      (multi_child opens s \<noteq> None \<or> multi_server msg s \<noteq> None)) xs)
    (zip (multi_at opens msg log) (tl (multi_at opens msg log)))"
  by (cases opens) (simp_all add: multi_at_def Let_def multi_step_def multi_child_def multi_server_def)

lemma multi_at_last:
  "s \<in> set (last (multi_at opens msg log)) \<Longrightarrow> \<not> multi_step opens msg s t \<and> ms s = MS_Done \<and>
    m_log s = (if opens then log @ multi_line msg else log) \<and> (m_mutex s = None \<longleftrightarrow> opens)"
  by (cases opens) (simp_all add: multi_at_def Let_def multi_step_def multi_child_def multi_server_def)

lemma multi_at_step:
  assumes "n + 1 < length (multi_at opens msg log)" and "s \<in> set (multi_at opens msg log ! n)"
  shows "multi_step opens msg s t \<Longrightarrow> t \<in> set (multi_at opens msg log ! (n + 1))"
    and "\<exists>t. multi_step opens msg s t"
proof -
  let ?L = "multi_at opens msg log"
  have "n < length (zip ?L (tl ?L))" "zip ?L (tl ?L) ! n = (?L ! n, ?L ! (n + 1))"
    using assms(1) by (simp_all add: nth_tl)
  then have "list_all (\<lambda>s. (\<forall>t. multi_step opens msg s t \<longrightarrow> t \<in> set (?L ! (n + 1))) \<and>
      (multi_child opens s \<noteq> None \<or> multi_server msg s \<noteq> None)) (?L ! n)"
    using multi_at_closed [of opens msg log] unfolding list_all_length by fastforce
  then show "multi_step opens msg s t \<Longrightarrow> t \<in> set (?L ! (n + 1))" "\<exists>t. multi_step opens msg s t"
    using assms(2) by (auto simp: list_all_iff multi_step_def)
qed

lemma multi_steps_at:
  "(multi_step opens msg ^^ n) (multi_init log) s \<Longrightarrow>
    n < length (multi_at opens msg log) \<and> s \<in> set (multi_at opens msg log ! n)"
proof (induction n arbitrary: s)
  case 0
  then show ?case by (simp add: multi_at_def Let_def multi_init_def)
next
  case (Suc n)
  let ?L = "multi_at opens msg log"
  obtain u where u: "(multi_step opens msg ^^ n) (multi_init log) u" "multi_step opens msg u s"
    using Suc.prems by auto
  then have n: "n < length ?L" "u \<in> set (?L ! n)" using Suc.IH by auto
  have "n \<noteq> length ?L - 1"
  proof
    assume "n = length ?L - 1"
    moreover have "?L \<noteq> []" using n(1) by auto
    ultimately have "u \<in> set (last ?L)" using n(2) by (simp add: last_conv_nth)
    then show False using multi_at_last u(2) by blast
  qed
  then have "n + 1 < length ?L" using n by simp
  with multi_at_step(1) [OF this n(2) u(2)] show ?case by simp
qed

text \<open>Claim C36. One message with its own log process: whatever the interleaving, there are at most 13 steps;
  when nobody can go on the handler is done, and the message has been appended to the log exactly
  once, or, when the log file cannot be opened, not at all and the mutex stays locked.\<close>

theorem multi_logs_once:
  assumes "(multi_step opens msg ^^ n) (multi_init log) s"
  shows "n \<le> 13 \<and> ((\<nexists>t. multi_step opens msg s t) \<longrightarrow> ms s = MS_Done \<and>
    m_log s = (if opens then log @ multi_line msg else log) \<and> (m_mutex s = None \<longleftrightarrow> opens))"
proof -
  let ?L = "multi_at opens msg log"
  have n: "n < length ?L" "s \<in> set (?L ! n)" using multi_steps_at [OF assms] by auto
  have "s \<in> set (last ?L)" if "\<nexists>t. multi_step opens msg s t"
  proof -
    have "\<not> n + 1 < length ?L" using multi_at_step(2) n(2) that by blast
    then have "n = length ?L - 1" "?L \<noteq> []" using n(1) by auto
    then show ?thesis using n(2) by (simp add: last_conv_nth)
  qed
  then have "(\<nexists>t. multi_step opens msg s t) \<longrightarrow> ms s = MS_Done \<and>
    m_log s = (if opens then log @ multi_line msg else log) \<and> (m_mutex s = None \<longleftrightarrow> opens)"
    using multi_at_last by blast
  moreover have "n \<le> 13" using n(1) by (simp add: length_multi_at split: if_splits)
  ultimately show ?thesis by (rule conjI [rotated])
qed

theorem multi_logs_once_witness:
  "\<exists>s. (multi_step True ''m'' ^^ 1) (multi_init []) s \<and>
     ((\<nexists>t. multi_step True ''m'' s t) \<longrightarrow> m_log s = multi_line ''m'')"
proof -
  let ?s = "(multi_init [])\<lparr>mc := MC_Token, m_mutex := Some M_Child\<rparr>"
  have "multi_step True ''m'' (multi_init []) ?s"
    by (simp add: multi_step_def multi_child_def multi_init_def)
  then have "(multi_step True ''m'' ^^ 1) (multi_init []) ?s" by (simp only: relpowp_1)
  with multi_logs_once [OF this] show ?thesis by (intro exI [of _ ?s]) simp
qed

section \<open>Without synchronisation\<close>

text \<open>\<open>socket_pipe_log\<close>: a pipe and a child that appends the one message. \<open>child\<close> is the result of
  \<open>fork\<close>; the result is how the calling process goes on and what is in the log in the end (no
  value when the child ends without having written).\<close>

definition socket_pipe_log :: "int \<Rightarrow> bool \<Rightarrow> string \<Rightarrow> string \<Rightarrow> string \<Rightarrow> int \<Rightarrow> string \<Rightarrow> int \<Rightarrow> unit res \<times> string option" where
  "socket_pipe_log pid_log log_opens junk log path dim ip port =
     (if pid_log < 0 then (Ret (), Some log)
      else if pid_log > 0 then
        (Ret (), case socket_pipe_log_father log_opens (socket_pipe_log_child junk path dim ip port) log of
            Ret log' \<Rightarrow> Some log' | _ \<Rightarrow> None)
      else (case socket_pipe_log_father log_opens (socket_pipe_log_child junk path dim ip port) log of
            Ret log' \<Rightarrow> (Exit 0, Some log') | Exit n \<Rightarrow> (Exit n, None) | _ \<Rightarrow> (Blocked, None)))"

end
