(* ===== verification/Variants.thy ===== *)
theory Variants
  imports Server
begin

text \<open>
  The alternatives that the sources keep beside the code in use: in \<open>general/lib/socket/socket.c\<close> the
  file sender \<open>SendFile\<close> with \<open>fsize\<close>, \<open>SendFileMapped\<close>, the reader \<open>socket_read_request2\<close>,
  \<open>socket_drain_tcp2\<close> and \<open>write_to_log\<close>; and three small helpers of \<open>linux/lib\<close>.
\<close>

section \<open>Sending a file through a buffer\<close>

text \<open>A stream: its position and its contents; \<open>ftell\<close> may fail at the first or the second call, which
  closes the stream.\<close>

record stream =
  st_pos :: nat
  st_bytes :: string
  st_tell1 :: bool
  st_tell2 :: bool

text \<open>The size is an \<open>int\<close>.\<close>

definition fsize :: "stream \<Rightarrow> int" where
  "fsize fp =
     (if \<not> st_tell1 fp then - 1
      else if \<not> st_tell2 fp then - 1
      else to_int32 (int (length (st_bytes fp))))"

text \<open>\<open>fread\<close> returns 0 at the end of the stream and never -1.\<close>

partial_function (option) SendFile_loop :: "string \<Rightarrow> int \<Rightarrow> world \<Rightarrow> (int res \<times> world) option" where
  "SendFile_loop rest filesize w =
     (if filesize > 0 then
        (let buffer = take SEND_BUFFER_SIZE rest
         in case sendM buffer w of (r, w1) \<Rightarrow>
              (case r of
                 Ret k \<Rightarrow> if k = - 1 then Some (Ret (- 2), w1)
                   else SendFile_loop (drop SEND_BUFFER_SIZE rest) (filesize - int (length buffer)) w1
               | _ \<Rightarrow> Some (r, w1)))
      else Some (Ret 0, w))"

definition SendFile :: "stream \<Rightarrow> world \<Rightarrow> (int res \<times> world) option" where
  "SendFile fp w = SendFile_loop (drop (st_pos fp) (st_bytes fp)) (fsize fp) w"

definition SendFileMapped :: "string \<Rightarrow> nat \<Rightarrow> (world, int) prog" where
  "SendFileMapped fileToSend n =
     (if length fileToSend < n then stopM (UB Out_Of_Bounds)
      else bindM (sendM (take n fileToSend)) (\<lambda>r. retM (if r = - 1 then - 2 else 0)))"

section \<open>Reading a request at one go\<close>

text \<open>The end of the line is looked for at the last two bytes and behind them; with a single byte the
  first place that is looked at is in front of the buffer. \<open>n\<close> is the number of bytes received.\<close>

definition cut_at :: "char list \<Rightarrow> nat \<Rightarrow> nat \<Rightarrow> char list option res" where
  "cut_at buf n i =
     (if n = 0 then Ret None
      else if n < i then UB Out_Of_Bounds
      else if buf ! (n - i) = CR \<or> buf ! (n - i) = NL then Ret (Some (buf[n - i := NUL])) else Ret None)"

definition cut_line :: "char list \<Rightarrow> nat \<Rightarrow> char list res" where
  "cut_line buf n =
     bind_res (cut_at buf n 2) (\<lambda>r2. case r2 of Some b \<Rightarrow> Ret b | None \<Rightarrow>
     bind_res (cut_at buf n 1) (\<lambda>r1. case r1 of Some b \<Rightarrow> Ret b | None \<Rightarrow>
     bind_res (cut_at buf n 0) (\<lambda>r0. case r0 of Some b \<Rightarrow> Ret b | None \<Rightarrow> Ret buf)))"

definition socket_read_request2 :: "(world, char list) prog" where
  "socket_read_request2 =
     bindM (callocM Blk_Buf) (\<lambda>ok.
     if \<not> ok then clean_request False False
     else bindM (recvM BUFFER_SIZE) (\<lambda>r. case r of
         Got bytes \<Rightarrow>
           bindM (stopM (cut_line (store (replicate (BUFFER_SIZE + 1) NUL) 0 bytes) (length bytes))) (\<lambda>buf.
           thenM socket_drain_tcp (retM buf))
       | _ \<Rightarrow> clean_request False True))"

text \<open>Draining without blocking: the error number is compared with the result of \<open>recv\<close>, so every
  error gives -1. \<open>evs\<close> are the results of the calls, until one is not positive.\<close>

fun socket_drain_tcp2 :: "int list \<Rightarrow> int" where
  "socket_drain_tcp2 [] = 0"
| "socket_drain_tcp2 (n # ns) = (if 0 < n then socket_drain_tcp2 ns else if n < 0 then - 1 else 0)"

definition write_to_log :: "bool \<Rightarrow> string \<Rightarrow> int \<times> string" where
  "write_to_log opens log = (if opens then (0, log @ ''ciaoo'') else (- 1, log))"

section \<open>Small helpers\<close>

text \<open>\<open>linux_files_interaction.c\<close>: the result of \<open>stat\<close> is not looked at, so the size of a missing file
  is read from an uninitialised struct. \<open>linux/lib/utils/utils.c\<close>: a descriptor is valid unless
  \<open>fcntl\<close> fails with \<open>EBADF\<close>; the error number may be an old one. \<open>linux_thread.c\<close> always gives 0.\<close>

definition getFilesize :: "nat option \<Rightarrow> nat res" where
  "getFilesize st_size = (case st_size of None \<Rightarrow> UB Uninitialised | Some n \<Rightarrow> Ret n)"

definition fd_is_valid :: "int \<Rightarrow> bool \<Rightarrow> bool" where
  "fd_is_valid flags errno_is_ebadf \<longleftrightarrow> flags \<noteq> - 1 \<or> \<not> errno_is_ebadf"

definition thr_pthread_create :: "bool \<Rightarrow> int" where
  "thr_pthread_create ok = 0"

section \<open>Properties\<close>

text \<open>The loop never returns once the stream is used up and bytes are still expected.\<close>

lemma SendFile_loop_stuck:
  assumes "SendFile_loop rest n w = Some r"
  shows "rest = [] \<longrightarrow> 0 < n \<longrightarrow> sock_usable w \<longrightarrow> tx w = [] \<longrightarrow> False"
proof (rule SendFile_loop.raw_induct [where P = "\<lambda>rest n w r. rest = [] \<longrightarrow> 0 < n \<longrightarrow> sock_usable w \<longrightarrow> tx w = [] \<longrightarrow> False",
    OF _ assms], goal_cases)
  case (1 f rest n w r)
  show ?case
  proof (intro impI)
    assume a: "rest = []" "0 < n" "sock_usable w" "tx w = []"
    then have "f [] n w = Some r" using 1(2) by (simp add: sendM_def Let_def)
    then show False using 1(1) a by blast
  qed
qed

text \<open>One turn of the loop on a network that takes everything.\<close>

lemma SendFile_loop_step:
  assumes "sock_usable w" and "tx w = []" and "Client_Stalled \<notin> obstacles w" and "0 < n"
  shows "SendFile_loop rest n w = SendFile_loop (drop SEND_BUFFER_SIZE rest)
    (n - int (length (take SEND_BUFFER_SIZE rest))) (w\<lparr>out := out w @ take SEND_BUFFER_SIZE rest\<rparr>)"
  using assms by (subst SendFile_loop.simps) (simp add: sendM_def Let_def)

lemma SendFile_loop_all:
  "sock_usable w \<Longrightarrow> tx w = [] \<Longrightarrow> Client_Stalled \<notin> obstacles w \<Longrightarrow>
    SendFile_loop rest (int (length rest)) w = Some (Ret 0, w\<lparr>out := out w @ rest\<rparr>)"
proof (induction "length rest" arbitrary: rest w rule: less_induct)
  case less
  show ?case
  proof (cases "rest = []")
    case True
    then show ?thesis by (simp add: SendFile_loop.simps)
  next
    case False
    let ?w = "w\<lparr>out := out w @ take SEND_BUFFER_SIZE rest\<rparr>"
    have "length (drop SEND_BUFFER_SIZE rest) < length rest"
      using False by (simp add: SEND_BUFFER_SIZE_def)
    then have "SendFile_loop (drop SEND_BUFFER_SIZE rest) (int (length (drop SEND_BUFFER_SIZE rest))) ?w =
        Some (Ret 0, ?w\<lparr>out := out ?w @ drop SEND_BUFFER_SIZE rest\<rparr>)"
      by (rule less.hyps) (use less.prems in \<open>simp_all add: sock_usable_def\<close>)
    moreover have "int (length rest) - int (length (take SEND_BUFFER_SIZE rest)) =
        int (length (drop SEND_BUFFER_SIZE rest))" by simp
    ultimately show ?thesis
      using False SendFile_loop_step [OF less.prems, of "int (length rest)" rest] by simp
  qed
qed

lemma SendFile_loop_short:
  "sock_usable w \<Longrightarrow> tx w = [] \<Longrightarrow> Client_Stalled \<notin> obstacles w \<Longrightarrow> int (length rest) < n \<Longrightarrow> SendFile_loop rest n w = None"
proof (induction "length rest" arbitrary: rest n w rule: less_induct)
  case less
  show ?case
  proof (cases "rest = []")
    case True
    then show ?thesis
      using less.prems SendFile_loop_stuck [of "[]" n w] by (cases "SendFile_loop [] n w") auto
  next
    case False
    let ?w = "w\<lparr>out := out w @ take SEND_BUFFER_SIZE rest\<rparr>"
    let ?n = "n - int (length (take SEND_BUFFER_SIZE rest))"
    have "length (drop SEND_BUFFER_SIZE rest) < length rest"
      using False by (simp add: SEND_BUFFER_SIZE_def)
    moreover have "int (length (drop SEND_BUFFER_SIZE rest)) < ?n" using less.prems(4) by simp
    ultimately have "SendFile_loop (drop SEND_BUFFER_SIZE rest) ?n ?w = None"
      using less.prems by (intro less.hyps) (simp_all add: sock_usable_def)
    then show ?thesis using less.prems SendFile_loop_step [OF less.prems(1-3), of n rest] by simp
  qed
qed

text \<open>On a network that takes everything, at any speed, \<open>SendFile\<close> sends a file of less than 2 GiB and returns 0
  when the stream is at its start. When the stream is not at its start, as many bytes are missing at
  the end, and the loop never returns: it does not see the end of the stream.\<close>

theorem SendFile_returns_iff:
  assumes "sock_usable w" and "tx w = []" and "Client_Stalled \<notin> obstacles w" and "st_tell1 fp"
    and "st_tell2 fp" and "length (st_bytes fp) < 2 ^ 31" and "st_pos fp \<le> length (st_bytes fp)"
  shows "SendFile fp w = (if st_pos fp = 0 then Some (Ret 0, w\<lparr>out := out w @ st_bytes fp\<rparr>) else None)"
proof -
  have "fsize fp = int (length (st_bytes fp))" using assms(4-6) by (simp add: fsize_def to_int32_id)
  then show ?thesis
    using assms SendFile_loop_all [OF assms(1-3), of "st_bytes fp"]
      SendFile_loop_short [OF assms(1-3), of "drop (st_pos fp) (st_bytes fp)" "int (length (st_bytes fp))"]
    by (auto simp: SendFile_def)
qed

theorem SendFile_returns_iff_witness:
  "SendFile \<lparr>st_pos = 0, st_bytes = ''hello'', st_tell1 = True, st_tell2 = True\<rparr> (client_world []) =
     Some (Ret 0, (client_world [])\<lparr>out := ''hello''\<rparr>) \<and>
   SendFile \<lparr>st_pos = 1, st_bytes = ''hello'', st_tell1 = True, st_tell2 = True\<rparr> (client_world []) = None"
  using SendFile_returns_iff [of "client_world []" "\<lparr>st_pos = 0, st_bytes = ''hello'', st_tell1 = True, st_tell2 = True\<rparr>"]
    SendFile_returns_iff [of "client_world []" "\<lparr>st_pos = 1, st_bytes = ''hello'', st_tell1 = True, st_tell2 = True\<rparr>"]
  by simp

text \<open>The older reader on one segment: a line that ends with CR LF (or with LF and another byte) is cut
  at its end; a request of a single byte makes it read in front of its buffer.\<close>

theorem cut_line_crlf:
  assumes "bytes = sel @ [CR, NL]" and "nul_free sel"
  shows "(\<exists>b. cut_line (store (replicate (BUFFER_SIZE + 1) NUL) 0 bytes) (length bytes) = Ret b \<and> cstr b = sel) \<and>
    cut_line (store (replicate (BUFFER_SIZE + 1) NUL) 0 [c]) (length [c]) = UB Out_Of_Bounds"
proof
  define z where "z = drop (length bytes) (replicate (BUFFER_SIZE + 1) NUL)"
  have buf: "store (replicate (BUFFER_SIZE + 1) NUL) 0 bytes = sel @ CR # NL # z"
    unfolding store_def z_def using assms(1) by (simp del: replicate_Suc drop_replicate)
  have "cut_at (sel @ CR # NL # z) (length bytes) 2 = Ret (Some (sel @ NUL # NL # z))"
    by (simp add: cut_at_def assms(1))
  then have "cut_line (sel @ CR # NL # z) (length bytes) = Ret (sel @ NUL # NL # z)"
    by (simp add: cut_line_def)
  moreover have "cstr (sel @ NUL # NL # z) = sel" using assms(2) by simp
  ultimately show "\<exists>b. cut_line (store (replicate (BUFFER_SIZE + 1) NUL) 0 bytes) (length bytes) = Ret b \<and> cstr b = sel"
    unfolding buf by blast
  show "cut_line (store (replicate (BUFFER_SIZE + 1) NUL) 0 [c]) (length [c]) = UB Out_Of_Bounds"
    by (simp add: cut_line_def cut_at_def del: replicate_Suc)
qed

theorem cut_line_crlf_witness:
  "\<exists>b. cut_line (store (replicate (BUFFER_SIZE + 1) NUL) 0 (''/a'' @ [CR, NL])) (length (''/a'' @ [CR, NL])) = Ret b \<and>
     cstr b = ''/a''"
  by (rule cut_line_crlf [OF refl, THEN conjunct1]) simp

end
