(* ===== verification/WinHandler.thy ===== *)
theory WinHandler
  imports Server
begin

text \<open>
  The Windows processes: \<open>main_HandleRequest.c\<close> (the process of one request and how it is started by
  \<open>run_process\<close> of \<open>windows_socket.c\<close>), \<open>main_LogProcess.c\<close> and \<open>windows_pipe.c\<close>.

  \<^item> The request's process gets its configuration on a command line. \<open>win_argv\<close> is how the C runtime
    splits a command line; \<open>win_cmdline\<close> and \<open>win_handler_args\<close> are the two ends, and the round
    trip shows what survives.
  \<^item> A log message goes through an anonymous pipe to a process that is started for it.
\<close>

section \<open>The C runtime's command line\<close>

abbreviation QUOTE :: char where "QUOTE \<equiv> CHR 0x22"
abbreviation SPACE :: char where "SPACE \<equiv> CHR '' ''"

text \<open>
  Blanks outside quotes separate arguments; \<open>2 n\<close> backslashes before a quote are \<open>n\<close> backslashes
  and the quote counts, \<open>2 n + 1\<close> are \<open>n\<close> backslashes and a literal quote; other backslashes are
  literal. \<open>n\<close> counts the backslashes just read, \<open>q\<close> is inside quotes, \<open>tok\<close> the argument so far.
\<close>

fun win_argv :: "nat \<Rightarrow> bool \<Rightarrow> string option \<Rightarrow> string \<Rightarrow> string list" where
  "win_argv n q None [] = []"
| "win_argv n q (Some t) [] = [t @ replicate n BACKSLASH]"
| "win_argv n q tok (c # cs) =
     (let t = (case tok of None \<Rightarrow> [] | Some t \<Rightarrow> t)
      in if c = BACKSLASH then win_argv (Suc n) q (Some t) cs
         else if c = QUOTE then
           (if even n then win_argv 0 (\<not> q) (Some (t @ replicate (n div 2) BACKSLASH)) cs
            else win_argv 0 q (Some (t @ replicate (n div 2) BACKSLASH @ [QUOTE])) cs)
         else if (c = SPACE \<or> c = TAB) \<and> \<not> q then
           (case tok of None \<Rightarrow> win_argv 0 False None cs
            | Some t \<Rightarrow> (t @ replicate n BACKSLASH) # win_argv 0 False None cs)
         else win_argv 0 q (Some (t @ replicate n BACKSLASH @ [c])) cs)"

definition atoi :: "string \<Rightarrow> int" where
  "atoi s = to_int32 (fst (strtol s))"

section \<open>Starting the process of a request\<close>

text \<open>The command line that \<open>run_process\<close> formats.\<close>

definition win_cmdline :: "string \<Rightarrow> Configs \<Rightarrow> string \<Rightarrow> int \<Rightarrow> string" where
  "win_cmdline ip c host dos = snprintf_text (BUFFER_SIZE * 2)
     (ip @ '' '' @ show_int (port_int c) @ '' '' @ [QUOTE] @ root_dir c @ [QUOTE] @ '' '' @
      show_int (mode_concurrency c) @ '' '' @ host @ '' '' @ show_int dos)"

text \<open>What \<open>main\<close> of the request's process makes of its arguments. \<open>reset_config\<close>, \<open>used_OPTARG\<close>,
  \<open>hostname\<close> and \<open>type_Request\<close> are not set; they keep what \<open>junk\<close> holds.\<close>

record win_start =
  ws_args :: ThreadArgs
  ws_host :: string
  ws_ip_buffer :: string
  ws_dos :: int

definition arg :: "string list \<Rightarrow> nat \<Rightarrow> string res" where
  "arg argv n = (if n < length argv then Ret (argv ! n) else UB Null_Deref)"

definition win_handler_args :: "ThreadArgs \<Rightarrow> string list \<Rightarrow> win_start res" where
  "win_handler_args junk argv =
     bind_res (arg argv 1) (\<lambda>a1.
     bind_res (arg argv 3) (\<lambda>a3.
     bind_res (arg argv 2) (\<lambda>a2.
     if BUFFER_SIZE < length a2 then Exit (- 1)
     else bind_res (strcpy BUFFER_SIZE a2) (\<lambda>root.
     bind_res (arg argv 5) (\<lambda>a5.
     bind_res (arg argv 0) (\<lambda>a0.
     bind_res (arg argv 4) (\<lambda>a4.
     Ret \<lparr>ws_args = junk\<lparr>ip_client := a0, configs := (configs junk)\<lparr>port_number := word_of_int (atoi a1),
            mode_concurrency := (case a3 of [] \<Rightarrow> 0 | c # _ \<Rightarrow> int (of_char c)), root_dir := root\<rparr>\<rparr>,
          ws_host = a4,
          ws_ip_buffer = (if length a4 < BUFFER_SIZE then a4 else []),
          ws_dos = atoi a5\<rparr>)))))))"

text \<open>Splitting the command line back.\<close>

definition bare :: "string \<Rightarrow> bool" where
  "bare s \<longleftrightarrow> s \<noteq> [] \<and> list_all (\<lambda>c. c \<notin> {SPACE, TAB, QUOTE, BACKSLASH, NUL}) s"

lemma win_argv_plain:
  "list_all (\<lambda>c. c \<notin> {SPACE, TAB, QUOTE, BACKSLASH, NUL}) s \<Longrightarrow>
    win_argv 0 False (Some t) (s @ cs) = win_argv 0 False (Some (t @ s)) cs"
  by (induction s arbitrary: t) auto

lemma win_argv_bare:
  assumes "bare s"
  shows "win_argv 0 False None (s @ SPACE # cs) = s # win_argv 0 False None cs"
    and "win_argv 0 False None s = [s]"
proof -
  obtain c t where s: "s = c # t" and t: "list_all (\<lambda>c. c \<notin> {SPACE, TAB, QUOTE, BACKSLASH, NUL}) t"
    and c: "c \<notin> {SPACE, TAB, QUOTE, BACKSLASH}"
    using assms by (cases s) (auto simp: bare_def)
  show "win_argv 0 False None (s @ SPACE # cs) = s # win_argv 0 False None cs"
    using c win_argv_plain [OF t, of "[c]" "SPACE # cs"] by (simp add: s)
  show "win_argv 0 False None s = [s]"
    using c win_argv_plain [OF t, of "[c]" "[]"] by (simp add: s)
qed

text \<open>Inside quotes: everything but quotes is literal, backslashes at the end excepted.\<close>

lemma win_argv_quoted:
  assumes "QUOTE \<notin> set d" and "n = 0 \<or> d \<noteq> []" and "d = [] \<or> last d \<noteq> BACKSLASH"
  shows "win_argv n True (Some t) (d @ QUOTE # cs) =
    win_argv 0 False (Some (t @ replicate n BACKSLASH @ d)) cs"
  using assms
proof (induction d arbitrary: n t)
  case (Cons c d)
  show ?case
  proof (cases "c = BACKSLASH")
    case True
    then have "d \<noteq> []" "last d \<noteq> BACKSLASH" using Cons.prems by (auto split: if_splits)
    then have "win_argv (Suc n) True (Some t) (d @ QUOTE # cs) =
        win_argv 0 False (Some (t @ replicate (Suc n) BACKSLASH @ d)) cs"
      using Cons.prems by (intro Cons.IH) auto
    then show ?thesis using True by (simp add: replicate_app_Cons_same)
  next
    case False
    then have "win_argv 0 True (Some (t @ replicate n BACKSLASH @ [c])) (d @ QUOTE # cs) =
        win_argv 0 False (Some ((t @ replicate n BACKSLASH @ [c]) @ replicate 0 BACKSLASH @ d)) cs"
      using Cons.prems by (intro Cons.IH) (auto split: if_splits)
    then show ?thesis using False Cons.prems by auto
  qed
qed simp

lemma bare_show_int: "bare (show_int n)"
proof -
  have "c \<notin> {SPACE, TAB, QUOTE, BACKSLASH, NUL}" if "c \<in> set (show_int n)" for c
    using show_int_chars [OF that] by (auto simp: isdigit_def)
  then show ?thesis by (simp add: bare_def list_all_iff)
qed

lemma win_argv_cmdline:
  assumes "bare ip" and "bare host" and "QUOTE \<notin> set d" and "d \<noteq> []" and "last d \<noteq> BACKSLASH"
  shows "win_argv 0 False None (ip @ '' '' @ show_int p @ '' '' @ [QUOTE] @ d @ [QUOTE] @ '' '' @
      show_int m @ '' '' @ host @ '' '' @ show_int k) = [ip, show_int p, d, show_int m, host, show_int k]"
  using assms bare_show_int
  by (simp add: win_argv_bare win_argv_quoted)

lemma atoi_show_int: "- (2 ^ 31) \<le> n \<Longrightarrow> n < 2 ^ 31 \<Longrightarrow> atoi (show_int n) = n"
  by (simp add: atoi_def strtol_show_int clamp_long_id to_int32_id)

lemma port_int_word: "word_of_int (atoi (show_int (port_int c))) = port_number c"
proof -
  have "- (2 ^ 31) \<le> port_int c \<and> port_int c < 2 ^ 31"
    using sint_range_size [of "port_number c"] by (simp add: port_int_def word_size)
  then show ?thesis by (simp add: atoi_show_int) (simp add: port_int_def)
qed

lemma show_mode:
  assumes "m = M_THREAD \<or> m = M_PROCESS"
  shows "(case show_int m of [] \<Rightarrow> 0 | c # _ \<Rightarrow> int (of_char c)) = 48 + m"
proof -
  have "show_nat d = [digit_char d]" if "d < 10" for d
    using that by (subst show_nat.simps) simp
  then have "show_nat 0 = [digit_char 0]" "show_nat 1 = [digit_char 1]" by simp_all
  then show ?thesis using assms by (elim disjE) (simp_all add: modes show_int_def digit_char_def)
qed

text \<open>Claim C34. What the parent formats and the request's process reads back: the port, the root directory
  (without quotes and not ending in a backslash), the client's address, the host name and
  \<open>DOS_PROTECTION\<close> arrive, but the mode is taken from the character code of its digit. So
  the process runs in neither of the two modes.\<close>

theorem win_cmdline_roundtrip:
  assumes "bare ip" and "bare host" and "QUOTE \<notin> set (root_dir c)" and "root_dir c \<noteq> []"
    and "last (root_dir c) \<noteq> BACKSLASH" and "length (root_dir c) < BUFFER_SIZE" and "length host < BUFFER_SIZE"
    and "mode_concurrency c = M_THREAD \<or> mode_concurrency c = M_PROCESS" and "- (2 ^ 31) \<le> dos" and "dos < 2 ^ 31"
    and "length ip + length (show_int (port_int c)) + length (root_dir c) + length host + length (show_int dos) + 9
      \<le> BUFFER_SIZE * 2"
  shows "win_handler_args junk (win_argv 0 False None (win_cmdline ip c host dos)) =
    Ret \<lparr>ws_args = junk\<lparr>ip_client := ip, configs := (configs junk)\<lparr>port_number := port_number c,
           mode_concurrency := 48 + mode_concurrency c, root_dir := root_dir c\<rparr>\<rparr>,
         ws_host = host, ws_ip_buffer = host, ws_dos = dos\<rparr> \<and>
    48 + mode_concurrency c \<notin> {M_THREAD, M_PROCESS}"
proof -
  let ?cmd = "ip @ '' '' @ show_int (port_int c) @ '' '' @ [QUOTE] @ root_dir c @ [QUOTE] @ '' '' @
      show_int (mode_concurrency c) @ '' '' @ host @ '' '' @ show_int dos"
  have "length (show_nat (nat (mode_concurrency c))) \<le> 1"
    using assms(8) by (intro length_show_nat) (auto simp: modes)
  then have "length (show_int (mode_concurrency c)) \<le> 1"
    using assms(8) by (auto simp: modes show_int_def)
  then have "length ?cmd \<le> BUFFER_SIZE * 2 - 1" using assms(11) by simp
  then have "win_cmdline ip c host dos = ?cmd" by (simp add: win_cmdline_def snprintf_text_def)
  then have "win_argv 0 False None (win_cmdline ip c host dos) =
      [ip, show_int (port_int c), root_dir c, show_int (mode_concurrency c), host, show_int dos]"
    using win_argv_cmdline [OF assms(1-5)] by simp
  moreover have "48 + mode_concurrency c \<notin> {M_THREAD, M_PROCESS}"
    using assms(8) by (auto simp: modes)
  moreover have "win_handler_args junk
      [ip, show_int (port_int c), root_dir c, show_int (mode_concurrency c), host, show_int dos] =
    Ret \<lparr>ws_args = junk\<lparr>ip_client := ip, configs := (configs junk)\<lparr>port_number := port_number c,
           mode_concurrency := 48 + mode_concurrency c, root_dir := root_dir c\<rparr>\<rparr>,
         ws_host = host, ws_ip_buffer = host, ws_dos = dos\<rparr>"
    unfolding win_handler_args_def
    using assms(6,7,9,10) show_mode [OF assms(8)]
    by (simp add: arg_def strcpy_def atoi_show_int port_int_word)
  ultimately show ?thesis by simp
qed

theorem win_cmdline_roundtrip_witness:
  "\<exists>s. win_handler_args \<lparr>fd = 0, configs = empty_conf, ip_client = [], type_Request = 0\<rparr>
     (win_argv 0 False None (win_cmdline ''10.0.0.7'' a_conf ''g.org'' 0)) = Ret s \<and>
     mode_concurrency (configs (ws_args s)) = 49 \<and> root_dir (configs (ws_args s)) = ''.''"
proof -
  have "port_int a_conf = 7080" by (simp add: port_int_def a_conf_def)
  moreover have "length (show_int 7080) \<le> 4" "length (show_int 0) \<le> 2"
    using length_show_int_iff [of 7080 2] length_show_int_iff [of 0 0] by simp_all
  ultimately show ?thesis
    using win_cmdline_roundtrip [of "''10.0.0.7''" "''g.org''" a_conf 0
        "\<lparr>fd = 0, configs = empty_conf, ip_client = [], type_Request = 0\<rparr>"]
    by (simp add: bare_def a_conf_def BUFFER_SIZE_def modes)
qed

text \<open>What follows: the handler cleans up as in the mode of processes, so it does not close its
  socket, and it frees its argument struct, which is a variable of \<open>main\<close>.\<close>

theorem win_child_frees_its_stack:
  assumes "mode_concurrency (configs (w_args w)) = 48 + m" and "m = M_THREAD \<or> m = M_PROCESS"
    and "Blk_Args \<notin> set (live w)" and "{Blk_Buf, Blk_Path} \<subseteq> set (live w)"
  shows "fst (win_clean_request True True w :: unit res \<times> world) = UB Double_Free \<and>
    closes (snd (win_clean_request True True w :: unit res \<times> world)) = closes w"
proof -
  have b: "Blk_Args \<notin> set (remove1 Blk_Buf (remove1 Blk_Path (live w)))"
    using assms(3) by (meson notin_set_remove1)
  have "Blk_Buf \<in> set (remove1 Blk_Path (live w))" using assms(4) by simp
  with b show ?thesis
    using assms by (auto simp: win_clean_request_def bindM_def thenM_def freeM_def modes)
qed

theorem win_child_frees_its_stack_witness:
  "\<exists>w. fst (win_clean_request True True w :: unit res \<times> world) = UB Double_Free"
proof -
  let ?w = "(client_world [])\<lparr>live := [Blk_Buf, Blk_Path], w_args := (w_args (client_world []))\<lparr>configs :=
      a_conf\<lparr>mode_concurrency := 49\<rparr>\<rparr>\<rparr>"
  have "fst (win_clean_request True True ?w :: unit res \<times> world) = UB Double_Free"
    using win_child_frees_its_stack [of ?w M_THREAD] by (simp add: modes)
  then show ?thesis by blast
qed

section \<open>Logging\<close>

subsection \<open>Starting the log process\<close>

text \<open>The results of the calls of \<open>pipe_run_process\<close>.\<close>

record pipe_calls =
  pc_create_pipe :: bool
  pc_redirect :: bool
  pc_create_process :: bool
  pc_duplicate :: bool
  pc_restore :: bool

datatype std_handle = Std_Own | Std_Pipe

text \<open>The returned status and the standard output that the process has afterwards. The process is
  started with \<open>1 + mode\<close> as its argument.\<close>

definition pipe_run_process :: "pipe_calls \<Rightarrow> std_handle \<Rightarrow> int \<times> std_handle" where
  "pipe_run_process calls out0 =
     (if \<not> pc_create_pipe calls then (22, out0)
      else if \<not> pc_redirect calls then (23, out0)
      else if pc_create_process calls then
        (if \<not> pc_duplicate calls then (23, Std_Pipe)
         else if \<not> pc_restore calls then (23, Std_Pipe)
         else (0, out0))
      else (24, Std_Pipe))"

subsection \<open>Writing a message\<close>

record PipeArgs =
  pa_ip :: string
  pa_dim :: int
  pa_path :: string
  pa_port :: int

definition pipe_text :: "PipeArgs \<Rightarrow> string" where
  "pipe_text a = ''W -> FileName: '' @ pa_path a @ [TAB] @ show_int (pa_dim a) @ '' KByte '' @ [TAB] @
     '' IP Client: '' @ pa_ip a"

text \<open>The message array has \<open>2 * BUFFER_SIZE\<close> characters and \<open>sprintf\<close> has no bound.\<close>

definition message_array :: "string \<Rightarrow> char list res" where
  "message_array text = bind_res (sprintf_to (BUFFER_SIZE * 2) text)
     (\<lambda>_. Ret (text @ replicate (BUFFER_SIZE * 2 - length text) NUL))"

definition pipe_write_to_pipe :: "bool \<Rightarrow> PipeArgs \<Rightarrow> char list \<Rightarrow> (int \<times> char list) res" where
  "pipe_write_to_pipe opens a written =
     bind_res (message_array (pipe_text a @ [NL])) (\<lambda>m.
     Ret (0, if opens then written @ m else written))"

text \<open>\<open>event\<close>: the event can be opened. The bytes written and the standard output.\<close>

definition pipe_simple_write_to_pipe ::
    "pipe_calls \<Rightarrow> bool \<Rightarrow> bool \<Rightarrow> PipeArgs \<Rightarrow> char list \<times> std_handle \<Rightarrow> (int \<times> char list \<times> std_handle) res" where
  "pipe_simple_write_to_pipe calls pipe_valid event a = (\<lambda>(written, out0).
     if \<not> pc_redirect calls then Ret (- 2, written, out0)
     else bind_res (message_array (pipe_text a @ [TAB] @ '' Port: '' @ show_int (pa_port a) @ '' '' @ [NL])) (\<lambda>m.
       let written' = (if pipe_valid then written @ m else written)
       in if \<not> event then Ret (- 2, written', Std_Pipe)
          else if \<not> pc_restore calls then Ret (- 1, written', Std_Pipe)
          else Ret (0, written', out0)))"

subsection \<open>The log process\<close>

text \<open>\<open>main\<close> of the log process handles one message: its loop condition is always false. It reads up
  to the size of its array; \<open>log\<close> is the log file, which may fail to open.\<close>

definition log_process_main :: "char list option \<Rightarrow> bool \<Rightarrow> string \<Rightarrow> string res" where
  "log_process_main input opens log =
     (case input of
        None \<Rightarrow> Ret log
      | Some bytes \<Rightarrow>
          (let buf = take (BUFFER_SIZE * 2) bytes
           in if \<not> opens then UB Null_Deref
              else bind_res (if length buf = BUFFER_SIZE * 2 \<and> NUL \<notin> set buf then UB Unterminated else Ret ())
                (\<lambda>_. Ret (log @ cstr buf))))"

text \<open>A message that fits its array and is written to the pipe of a fresh log process is appended
  to the log file as it is, and the standard output is the handler's own again. A longer
  message overflows the array.\<close>

theorem win_log_roundtrip:
  assumes "pc_redirect calls" and "pc_restore calls" and "nul_free (pa_path a)" and "nul_free (pa_ip a)"
  shows "let text = pipe_text a @ [TAB] @ '' Port: '' @ show_int (pa_port a) @ '' '' @ [NL] in
    (if length text < BUFFER_SIZE * 2
     then \<exists>bytes. pipe_simple_write_to_pipe calls True True a ([], out0) = Ret (0, bytes, out0) \<and>
       log_process_main (Some bytes) True log = Ret (log @ text)
     else pipe_simple_write_to_pipe calls True True a ([], out0) = UB Out_Of_Bounds)"
proof -
  let ?text = "pipe_text a @ [TAB] @ '' Port: '' @ show_int (pa_port a) @ '' '' @ [NL]"
  let ?bytes = "?text @ replicate (BUFFER_SIZE * 2 - length ?text) NUL"
  have "nul_free (show_int k)" for k
    using show_int_not_special [of NUL k] by (auto simp: nul_free_def)
  then have free: "nul_free ?text" using assms(3,4) by (simp add: pipe_text_def)
  have read: "log_process_main (Some ?bytes) True log = Ret (log @ ?text)" if "length ?text < BUFFER_SIZE * 2"
  proof -
    have "length ?bytes = BUFFER_SIZE * 2" using that by simp
    then have "take (BUFFER_SIZE * 2) ?bytes = ?bytes" by simp
    moreover have "NUL \<in> set ?bytes" using that by simp
    moreover have "cstr ?bytes = ?text" using free by (simp only: cstr_append_zeros cstr_id)
    ultimately show ?thesis by (simp add: log_process_main_def Let_def del: append_assoc append_Cons)
  qed
  show ?thesis
  proof (cases "length ?text < BUFFER_SIZE * 2")
    case True
    then have "message_array ?text = Ret ?bytes" by (simp add: message_array_def sprintf_to_def)
    then have "pipe_simple_write_to_pipe calls True True a ([], out0) = Ret (0, ?bytes, out0)"
      using assms(1,2) by (simp add: pipe_simple_write_to_pipe_def)
    with True read [OF True] show ?thesis by (auto simp: Let_def)
  next
    case False
    then have "message_array ?text = UB Out_Of_Bounds" by (simp add: message_array_def sprintf_to_def)
    then have "pipe_simple_write_to_pipe calls True True a ([], out0) = UB Out_Of_Bounds"
      using assms(1) by (simp add: pipe_simple_write_to_pipe_def)
    with False show ?thesis by (simp only: Let_def if_False)
  qed
qed

theorem win_log_roundtrip_witness:
  "\<exists>bytes. pipe_simple_write_to_pipe \<lparr>pc_create_pipe = True, pc_redirect = True, pc_create_process = True,
       pc_duplicate = True, pc_restore = True\<rparr> True True
     \<lparr>pa_ip = ''10.0.0.7'', pa_dim = 8, pa_path = ''a'', pa_port = 70\<rparr> ([], Std_Own) = Ret (0, bytes, Std_Own)"
proof -
  have "length (show_int 8) \<le> 2" "length (show_int 70) \<le> 2"
    using length_show_int_iff [of 8 0] length_show_int_iff [of 70 0] by simp_all
  then show ?thesis
    using win_log_roundtrip [of "\<lparr>pc_create_pipe = True, pc_redirect = True, pc_create_process = True,
       pc_duplicate = True, pc_restore = True\<rparr>" "\<lparr>pa_ip = ''10.0.0.7'', pa_dim = 8, pa_path = ''a'', pa_port = 70\<rparr>"
       Std_Own "[]"]
    by (auto simp: Let_def pipe_text_def BUFFER_SIZE_def)
qed

section \<open>The main function of the request's process\<close>

text \<open>\<open>calls\<close>: whether \<open>WSAStartup\<close>, opening the named pipe, reading the socket's description from it
  and making the socket succeed; each failure ends the process with -1. What the log
  process's start returns is not looked at. The result is the handler's arguments.\<close>

definition win_main_exits :: "int list" where
  "win_main_exits = [- 1, - 1, - 1, - 1]"

definition win_handler_main :: "ThreadArgs \<Rightarrow> string list \<Rightarrow> bool list \<Rightarrow> int \<Rightarrow> win_start res" where
  "win_handler_main junk argv calls sock =
     bind_res (win_handler_args junk argv) (\<lambda>s.
     bind_res (run_setup (zip win_main_exits calls)) (\<lambda>_.
     Ret (s\<lparr>ws_args := (ws_args s)\<lparr>fd := sock\<rparr>\<rparr>)))"

end
