(* ===== verification/WinSocket.thy ===== *)
theory WinSocket
  imports WinHandler
begin

text \<open>
  The Windows server: \<open>windows/lib/memory_mapping/windows_memory_mapping.c\<close>, the senders and the accept
  loop of \<open>windows/lib/socket/windows_socket.c\<close>, and \<open>windows/lib/events/windows_events.c\<close>.

  \<^item> The transfer sends a mapped file as a C string, from a thread that it does not wait for.
  \<^item> The accept loop is a program over \<open>wserver\<close> and a list of events, as on Linux. A thread that
    ends is an event too: it can end the process. All threads are given the address of one argument
    struct; \<open>share_step\<close> interleaves the loop and the calls of the threads on the socket in it.
\<close>

section \<open>Sending a mapped file\<close>

record win_file =
  wf_open :: bool          \<comment> \<open>\<open>CreateFile\<close> succeeds\<close>
  wf_size :: "nat option"  \<comment> \<open>the file size, if its attributes can be read\<close>
  wf_mapping :: bool
  wf_view :: "string option" \<comment> \<open>the mapped bytes\<close>
  wf_thread :: bool        \<comment> \<open>the sending thread can be created\<close>
  wf_in_time :: bool       \<comment> \<open>the thread has sent before the view is unmapped\<close>
  wf_unmap :: bool         \<comment> \<open>closing the mapping succeeds\<close>
  wf_close :: bool         \<comment> \<open>closing the file succeeds\<close>

text \<open>\<open>assert\<close> ends the process with status 3; \<open>long\<close> has 32 bits.\<close>

definition windows_GetFileSize :: "win_file \<Rightarrow> int res" where
  "windows_GetFileSize f = (case wf_size f of
       None \<Rightarrow> Ret (- 1)
     | Some n \<Rightarrow> if 2 ^ 32 \<le> n then Exit 3 else Ret (to_int32 (int n)))"

text \<open>\<open>strlen\<close> on a view: the rest of the last page is zero; a view that fills its pages has no NUL
  of its own.\<close>

definition PAGE :: nat where "PAGE = 4096"

definition view_str :: "string \<Rightarrow> string res" where
  "view_str v = (if NUL \<in> set v \<or> length v mod PAGE \<noteq> 0 then Ret (cstr v) else UB Out_Of_Bounds)"

definition windows_sendFile :: "string \<Rightarrow> (world, int) prog" where
  "windows_sendFile v =
     bindM (stopM (view_str v)) (\<lambda>message_to_send.
     bindM (sendM message_to_send) (\<lambda>ret. if ret < 0 then retM (- 1) else retM 0))"

text \<open>The older sender has the loop of \<open>l_sendFile\<close>, with the length of the C string cut to an \<open>int\<close>.\<close>

definition w_sendFile :: "string \<Rightarrow> (world, unit) prog" where
  "w_sendFile v = bindM (stopM (view_str v)) (\<lambda>message_to_send.
     l_send_loop message_to_send 0 (word_of_nat (length message_to_send)))"

text \<open>The transfer waits 0 ms for its sending thread, so a thread whose \<open>send\<close> waits for the client is late.
  A thread that sends after the view is gone reads unmapped memory.\<close>

definition if_late :: "(world, int) prog \<Rightarrow> (world, int) prog" where
  "if_late send = (\<lambda>w. case send w of (Blocked, w') \<Rightarrow> (UB Out_Of_Bounds, w') | (r, w') \<Rightarrow> (r, w'))"

lemma wp_if_late: "wp (if_late m) Q w = wp m (\<lambda>r. Q (if r = Blocked then UB Out_Of_Bounds else r)) w"
  by (simp add: wp_def if_late_def split: prod.split res.split)

text \<open>\<open>ptr_size\<close> is the size of a pointer, which the function returns as the size of the file.\<close>

definition windows_memory_mapping :: "int \<Rightarrow> win_file \<Rightarrow> (world, int) prog" where
  "windows_memory_mapping ptr_size f =
     (if \<not> wf_open f then retM (- 1)
      else thenM (modM (\<lambda>w. w\<lparr>file_open := True\<rparr>))
       (bindM (stopM (windows_GetFileSize f)) (\<lambda>size_file.
        if size_file \<le> 0 then thenM close_file (retM (- 1))
        else if \<not> wf_mapping f then thenM close_file (retM (- 1))
        else case wf_view f of
            None \<Rightarrow> thenM close_file (retM (- 1))
          | Some v \<Rightarrow>
              thenM (if \<not> wf_thread f then retM ()
                     else if wf_in_time f then thenM (if_late (windows_sendFile v)) (retM ())
                     else stopM (UB Out_Of_Bounds))
              (if \<not> wf_unmap f then retM (- 1)
               else if \<not> wf_close f then retM (- 1)
               else thenM close_file (retM ptr_size)))))"

text \<open>The transfer of a file that can be mapped, when the thread is in time.\<close>

lemma windows_mapping_run:
  assumes "wf_open f" and "wf_size f = Some (length c)" and "c \<noteq> []" and "length c < 2 ^ 31" and "wf_mapping f"
    and "wf_view f = Some c" and "wf_thread f" and "wf_in_time f" and "wf_unmap f" and "wf_close f"
    and "send_ready w" and "NUL \<in> set c \<or> length c mod PAGE \<noteq> 0"
  shows "windows_memory_mapping ptr_size f w =
    (Ret ptr_size, w\<lparr>out := out w @ cstr c, file_open := False, file_lock := False\<rparr>)"
proof -
  have size: "windows_GetFileSize f = Ret (int (length c))"
    using assms(2,4) by (simp add: windows_GetFileSize_def to_int32_id)
  have "sendM (cstr c) (w\<lparr>file_open := True\<rparr>) =
      (Ret (int (length (cstr c))), w\<lparr>file_open := True, out := out w @ cstr c\<rparr>)"
    using assms(11) by (simp add: sendM_def send_ready_def sock_usable_def)
  then have send: "windows_sendFile c (w\<lparr>file_open := True\<rparr>) = (Ret 0, w\<lparr>file_open := True, out := out w @ cstr c\<rparr>)"
    using assms(12) by (simp add: windows_sendFile_def view_str_def bindM_def)
  show ?thesis
    using assms(1,3,5-10) size send
    by (simp add: windows_memory_mapping_def thenM_def bindM_def close_file_def if_late_def)
qed

text \<open>Claim C35. A file of less than 2 GiB that is not empty and can be opened and mapped, while every call
  succeeds: when the sending thread is created and has sent before the view is unmapped (the caller
  waits 0 ms for it), the client takes what it is given, and the file has a NUL byte or a size that
  is no multiple of the page size, then what is sent ends at the first NUL byte of the file, the size
  that is returned is that of a pointer, and the file is closed again. Otherwise the behaviour can be
  undefined (\<open>windows_mapping_faults\<close>).\<close>

theorem windows_mapping_sends_prefix:
  assumes "wf_open f" and "wf_size f = Some (length c)" and "c \<noteq> []" and "length c < 2 ^ 31" and "wf_mapping f"
    and "wf_view f = Some c" and "wf_thread f" and "wf_in_time f" and "wf_unmap f" and "wf_close f"
    and "send_ready w" and "NUL \<in> set c \<or> length c mod PAGE \<noteq> 0"
  shows "windows_memory_mapping ptr_size f w =
    (Ret ptr_size, w\<lparr>out := out w @ cstr c, file_open := False, file_lock := False\<rparr>)"
  using assms by (rule windows_mapping_run)

definition a_file :: "string \<Rightarrow> win_file" where
  "a_file c = \<lparr>wf_open = True, wf_size = Some (length c), wf_mapping = True, wf_view = Some c,
     wf_thread = True, wf_in_time = True, wf_unmap = True, wf_close = True\<rparr>"

theorem windows_mapping_sends_prefix_witness:
  "fst (windows_memory_mapping 8 (a_file (''GIF'' @ [NUL] @ ''89a'')) (client_world [])) = Ret 8 \<and>
   out (snd (windows_memory_mapping 8 (a_file (''GIF'' @ [NUL] @ ''89a'')) (client_world []))) = ''GIF''"
  using windows_mapping_sends_prefix [of "a_file (''GIF'' @ [NUL] @ ''89a'')" "''GIF'' @ [NUL] @ ''89a''" "client_world []" 8]
  by (simp add: a_file_def cstr_def)

text \<open>A thread that is late reads memory that is no longer mapped, a file whose size is a multiple of
  the page size and that has no NUL is read beyond its end, and a size of 4 GiB or more ends
  the process.\<close>

theorem windows_mapping_faults:
  assumes "wf_open f" and "wf_size f = Some (length c)" and "c \<noteq> []" and "wf_mapping f" and "wf_view f = Some c"
    and "wf_thread f"
  shows "(length c < 2 ^ 31 \<and> (\<not> wf_in_time f \<or> NUL \<notin> set c \<and> length c mod PAGE = 0) \<longrightarrow>
      fst (windows_memory_mapping ptr_size f w) = UB Out_Of_Bounds) \<and>
    (2 ^ 32 \<le> length c \<longrightarrow> fst (windows_memory_mapping ptr_size f w) = Exit 3)"
  using assms
  by (auto simp: windows_memory_mapping_def windows_GetFileSize_def to_int32_id thenM_def bindM_def
      windows_sendFile_def view_str_def if_late_def)

theorem windows_mapping_faults_witness:
  "fst (windows_memory_mapping 8 ((a_file ''hello'')\<lparr>wf_in_time := False\<rparr>) (client_world [])) = UB Out_Of_Bounds"
  using windows_mapping_faults [of "(a_file ''hello'')\<lparr>wf_in_time := False\<rparr>" "''hello''" 8 "client_world []"]
  by (simp add: a_file_def)

section \<open>The accept loop\<close>

record wserver =
  wv_conf :: Configs              \<comment> \<open>\<open>*configs\<close>\<close>
  wv_ip :: string
  wv_dos :: int
  wv_cwd :: string
  wv_socks :: "int list"          \<comment> \<open>open sockets of the server process\<close>
  wv_args :: ThreadArgs           \<comment> \<open>the struct that every thread is given the address of\<close>
  wv_threads :: "int list"        \<comment> \<open>the client of each started thread, when it was started\<close>
  wv_children :: "string list"    \<comment> \<open>command lines of the processes that were started\<close>

text \<open>\<open>SOCKET\<close> is an unsigned type, so the tests \<open>server < 0\<close> and \<open>client < 0\<close> never hold.
  \<open>INVALID_SOCKET\<close> is written -1 here.\<close>

definition INVALID_SOCKET :: int where "INVALID_SOCKET = - 1"

definition CTRL_C_EVENT :: int where "CTRL_C_EVENT = 0"

definition consoleHandler :: "int \<Rightarrow> (wserver, unit) prog" where
  "consoleHandler signal =
     whenM (signal = CTRL_C_EVENT) (modM (\<lambda>s. s\<lparr>wv_conf := (wv_conf s)\<lparr>reset_config := True\<rparr>\<rparr>))"

definition win_end_server :: "int \<Rightarrow> (wserver, int) prog" where
  "win_end_server d = thenM (modM (\<lambda>s. s\<lparr>wv_socks := remove1 d (wv_socks s)\<rparr>)) (retM 0)"

text \<open>One connection: the client's socket (none when \<open>accept\<close> fails), its address, whether the thread
  or the process can be created, whether the socket can be duplicated, and whether the process
  ends.\<close>

record wround =
  wr_accept :: "nat option"
  wr_addr :: string
  wr_spawn :: bool
  wr_dup :: bool
  wr_done :: bool

text \<open>\<open>W_Thread_Ends r\<close>: a thread that the loop has started has come to its end \<open>r\<close>. Threads share the
  process: one that calls \<open>exit\<close>, is killed or has undefined behaviour takes the server with it. One
  that returns, or that waits for ever, does not.\<close>

datatype wevent =
    W_Console int | W_Select_Intr | W_Select_Err | W_Timeout | W_Ready wround | W_Thread_Ends "unit res"

primrec fatal :: "unit res \<Rightarrow> int res option" where
  "fatal (Ret x) = None"
| "fatal (Exit n) = Some (Exit n)"
| "fatal Thread_Exit = None"
| "fatal (Killed n) = Some (Killed n)"
| "fatal (UB e) = Some (UB e)"
| "fatal Blocked = None"

definition run_process :: "wround \<Rightarrow> int \<Rightarrow> (wserver, unit) prog" where
  "run_process rd client =
     bindM (getM (\<lambda>s. win_cmdline (wr_addr rd) (wv_conf s) (wv_ip s) (wv_dos s))) (\<lambda>cmd_child.
     if \<not> wr_spawn rd then retM ()
     else thenM (modM (\<lambda>s. s\<lparr>wv_children := wv_children s @ [cmd_child]\<rparr>))
       (if \<not> wr_dup rd then stopM (Exit 1)
        else if \<not> wr_done rd then stopM Blocked
        else modM (\<lambda>s. s\<lparr>wv_socks := remove1 client (wv_socks s)\<rparr>)))"

definition win_serve :: "wround \<Rightarrow> (wserver, unit) prog" where
  "win_serve rd =
     (let client = (case wr_accept rd of None \<Rightarrow> INVALID_SOCKET | Some n \<Rightarrow> int n)
      in thenM (modM (\<lambda>s. s\<lparr>wv_socks := (if client = INVALID_SOCKET then wv_socks s else client # wv_socks s),
             wv_args := (wv_args s)\<lparr>ip_client := wr_addr rd, fd := client\<rparr>\<rparr>))
         (bindM (getM (\<lambda>s. mode_concurrency (configs (wv_args s)))) (\<lambda>mode.
          if mode = M_THREAD then
            whenM (wr_spawn rd) (modM (\<lambda>s. s\<lparr>wv_threads := wv_threads s @ [client]\<rparr>))
          else if mode = M_PROCESS then run_process rd client
          else stopM (Exit (- 1)))))"

fun win_accept_loop :: "int \<Rightarrow> wevent list \<Rightarrow> (wserver, int) prog" where
  "win_accept_loop server [] = stopM Blocked"
| "win_accept_loop server (W_Console n # es) = thenM (consoleHandler n) (win_accept_loop server es)"
| "win_accept_loop server (W_Select_Intr # es) = win_accept_loop server es"
| "win_accept_loop server (W_Select_Err # es) = retM (- 1)"
| "win_accept_loop server (W_Timeout # es) =
     bindM (getM (\<lambda>s. reset_config (wv_conf s))) (\<lambda>reset.
     if reset then thenM (win_end_server server) (retM (- 1)) else win_accept_loop server es)"
| "win_accept_loop server (W_Ready rd # es) = thenM (win_serve rd) (win_accept_loop server es)"
| "win_accept_loop server (W_Thread_Ends r # es) =
     (case fatal r of None \<Rightarrow> win_accept_loop server es | Some e \<Rightarrow> stopM e)"

record wnet =
  wn_startup :: bool
  wn_socket :: "nat option"
  wn_bind :: bool
  wn_listen :: bool

text \<open>\<open>c2\<close> is the uninitialised local configuration that the clone is made in.\<close>

definition windows_socket_runner :: "wnet \<Rightarrow> Configs \<Rightarrow> wevent list \<Rightarrow> (wserver, int) prog" where
  "windows_socket_runner net c2 es =
     (if \<not> wn_startup net then retM (- 1)
      else let server = (case wn_socket net of None \<Rightarrow> INVALID_SOCKET | Some n \<Rightarrow> int n)
      in thenM (whenM (server \<noteq> INVALID_SOCKET) (modM (\<lambda>s. s\<lparr>wv_socks := server # wv_socks s\<rparr>)))
         (if server = INVALID_SOCKET \<or> \<not> wn_bind net then retM (- 1)
          else if \<not> wn_listen net then retM (- 1)
          else bindM (getM wv_conf) (\<lambda>c.
            bindM (stopM (ut_clone_configs c (c2\<lparr>reset_config := False\<rparr>))) (\<lambda>n.
            thenM (modM (\<lambda>s. s\<lparr>wv_args := (wv_args s)\<lparr>configs := n\<rparr>\<rparr>))
            (win_accept_loop server es)))))"

subsection \<open>Properties\<close>

text \<open>The rounds of a list of events up to where the loop ends, and whether it ends.\<close>

fun win_rounds :: "bool \<Rightarrow> wevent list \<Rightarrow> wround list" where
  "win_rounds reset [] = []"
| "win_rounds reset (W_Console n # es) = win_rounds (reset \<or> n = CTRL_C_EVENT) es"
| "win_rounds reset (W_Select_Intr # es) = win_rounds reset es"
| "win_rounds reset (W_Select_Err # es) = []"
| "win_rounds reset (W_Timeout # es) = (if reset then [] else win_rounds reset es)"
| "win_rounds reset (W_Ready rd # es) = rd # win_rounds reset es"
| "win_rounds reset (W_Thread_Ends r # es) = (if fatal r = None then win_rounds reset es else [])"

fun win_ends :: "bool \<Rightarrow> wevent list \<Rightarrow> bool" where
  "win_ends reset [] = False"
| "win_ends reset (W_Console n # es) = win_ends (reset \<or> n = CTRL_C_EVENT) es"
| "win_ends reset (W_Select_Intr # es) = win_ends reset es"
| "win_ends reset (W_Select_Err # es) = True"
| "win_ends reset (W_Timeout # es) = (reset \<or> win_ends reset es)"
| "win_ends reset (W_Ready rd # es) = win_ends reset es"
| "win_ends reset (W_Thread_Ends r # es) = (fatal r \<noteq> None \<or> win_ends reset es)"

text \<open>The result of the loop.\<close>

fun win_result :: "bool \<Rightarrow> wevent list \<Rightarrow> int res" where
  "win_result reset [] = Blocked"
| "win_result reset (W_Console n # es) = win_result (reset \<or> n = CTRL_C_EVENT) es"
| "win_result reset (W_Select_Intr # es) = win_result reset es"
| "win_result reset (W_Select_Err # es) = Ret (- 1)"
| "win_result reset (W_Timeout # es) = (if reset then Ret (- 1) else win_result reset es)"
| "win_result reset (W_Ready rd # es) = win_result reset es"
| "win_result reset (W_Thread_Ends r # es) = (case fatal r of None \<Rightarrow> win_result reset es | Some e \<Rightarrow> e)"

text \<open>Whether Ctrl-C has been seen when the loop ends or waits, and whether it has closed its socket.\<close>

fun win_flag :: "bool \<Rightarrow> wevent list \<Rightarrow> bool" where
  "win_flag reset [] = reset"
| "win_flag reset (W_Console n # es) = win_flag (reset \<or> n = CTRL_C_EVENT) es"
| "win_flag reset (W_Select_Intr # es) = win_flag reset es"
| "win_flag reset (W_Select_Err # es) = reset"
| "win_flag reset (W_Timeout # es) = (reset \<or> win_flag reset es)"
| "win_flag reset (W_Ready rd # es) = win_flag reset es"
| "win_flag reset (W_Thread_Ends r # es) = (if fatal r = None then win_flag reset es else reset)"

fun win_closes :: "bool \<Rightarrow> wevent list \<Rightarrow> bool" where
  "win_closes reset [] = False"
| "win_closes reset (W_Console n # es) = win_closes (reset \<or> n = CTRL_C_EVENT) es"
| "win_closes reset (W_Select_Intr # es) = win_closes reset es"
| "win_closes reset (W_Select_Err # es) = False"
| "win_closes reset (W_Timeout # es) = (reset \<or> win_closes reset es)"
| "win_closes reset (W_Ready rd # es) = win_closes reset es"
| "win_closes reset (W_Thread_Ends r # es) = (fatal r = None \<and> win_closes reset es)"

lemma win_append:
  assumes "\<not> win_ends reset es"
  shows "win_ends reset (es @ fs) = win_ends (win_flag reset es) fs"
    and "win_flag reset (es @ fs) = win_flag (win_flag reset es) fs"
    and "win_closes reset (es @ fs) = win_closes (win_flag reset es) fs"
    and "win_rounds reset (es @ fs) = win_rounds reset es @ win_rounds (win_flag reset es) fs"
    and "win_result reset (es @ fs) = win_result (win_flag reset es) fs"
  using assms by (induction reset es rule: win_ends.induct) auto

lemma win_result_goes_on: "\<not> win_ends reset es \<Longrightarrow> win_result reset es = Blocked"
  using win_append(5) [of reset es "[]"] by simp

lemma win_flag_set: "reset \<Longrightarrow> win_flag reset es"
  by (induction reset es rule: win_flag.induct) auto

lemma win_flag_ctrl_c: "\<not> win_ends reset es \<Longrightarrow> W_Console CTRL_C_EVENT \<in> set es \<Longrightarrow> win_flag reset es"
  by (induction reset es rule: win_ends.induct) (auto intro: win_flag_set)

definition client_of :: "wround \<Rightarrow> int" where
  "client_of rd = (case wr_accept rd of None \<Rightarrow> INVALID_SOCKET | Some n \<Rightarrow> int n)"

definition opened :: "wround \<Rightarrow> int list" where
  "opened rd = (if client_of rd = INVALID_SOCKET then [] else [client_of rd])"

lemma win_serve_thread:
  assumes "mode_concurrency (configs (wv_args s)) = M_THREAD"
  shows "win_serve rd s = (Ret (), s\<lparr>wv_socks := opened rd @ wv_socks s,
    wv_args := (wv_args s)\<lparr>ip_client := wr_addr rd, fd := client_of rd\<rparr>,
    wv_threads := wv_threads s @ (if wr_spawn rd then [client_of rd] else [])\<rparr>)"
  using assms
  by (simp add: win_serve_def client_of_def opened_def Let_def thenM_def bindM_def getM_def whenM_def)

text \<open>The sockets that the rounds have opened, the last one first.\<close>

definition win_socks :: "wround list \<Rightarrow> int list" where
  "win_socks rds = List.concat (rev (map opened rds))"

lemma win_socks_simps [simp]:
  "win_socks [] = []" "win_socks (rd # rds) = win_socks rds @ opened rd"
  by (simp_all add: win_socks_def)

lemma set_win_socks: "set (win_socks rds) \<subseteq> client_of ` set rds"
  by (auto simp: win_socks_def opened_def split: if_splits)

definition win_loop_post :: "int \<Rightarrow> wserver \<Rightarrow> wevent list \<Rightarrow> int res \<Rightarrow> wserver \<Rightarrow> bool" where
  "win_loop_post server s es r s' \<longleftrightarrow>
     (let reset = reset_config (wv_conf s); rds = win_rounds reset es; socks = win_socks rds @ wv_socks s
      in r = win_result reset es \<and>
         wv_threads s' = wv_threads s @ map client_of (filter wr_spawn rds) \<and>
         fd (wv_args s') = last (fd (wv_args s) # map client_of rds) \<and>
         wv_children s' = wv_children s \<and> configs (wv_args s') = configs (wv_args s) \<and> wv_ip s' = wv_ip s \<and>
         wv_cwd s' = wv_cwd s \<and> wv_conf s' = (wv_conf s)\<lparr>reset_config := win_flag reset es\<rparr> \<and>
         wv_socks s' = (if win_closes reset es then remove1 server socks else socks))"

lemma hup_reset: "reset_config (hup b c) = (reset_config c \<or> b)" "(hup b c)\<lparr>reset_config := x\<rparr> = c\<lparr>reset_config := x\<rparr>"
  by (simp_all add: hup_def)

lemma win_accept_loop_post:
  "mode_concurrency (configs (wv_args s)) = M_THREAD \<Longrightarrow>
    wp (win_accept_loop server es) (win_loop_post server s es) s"
proof (induction server es arbitrary: s rule: win_accept_loop.induct)
  case (2 server n es)
  let ?s = "s\<lparr>wv_conf := hup (n = CTRL_C_EVENT) (wv_conf s)\<rparr>"
  have run: "consoleHandler n s = (Ret (), ?s)"
    by (simp add: consoleHandler_def hup_def whenM_def)
  have "wp (win_accept_loop server es) (win_loop_post server ?s es) ?s"
    by (rule "2.IH") (simp add: "2.prems")
  moreover have "win_loop_post server ?s es = win_loop_post server s (W_Console n # es)"
    by (intro ext) (simp add: win_loop_post_def Let_def hup_reset del: hup_mode)
  ultimately show ?case by (simp add: wp_thenM wp_run [where m = "consoleHandler n", OF run])
next
  case (3 server es)
  have "win_loop_post server s es = win_loop_post server s (W_Select_Intr # es)"
    by (intro ext) (simp add: win_loop_post_def)
  with "3.IH" [OF "3.prems"] show ?case by simp
next
  case (5 server es)
  show ?case
  proof (cases "reset_config (wv_conf s)")
    case True
    then show ?thesis by (simp add: wp_rules win_end_server_def win_loop_post_def)
  next
    case False
    have "wp (win_accept_loop server es) (win_loop_post server s es) s"
      by (rule "5.IH" [OF False]) (rule "5.prems")
    moreover have "win_loop_post server s es = win_loop_post server s (W_Timeout # es)"
      using False by (intro ext) (simp add: win_loop_post_def)
    ultimately show ?thesis using False by (simp add: wp_bindM)
  qed
next
  case (6 server rd es)
  let ?s = "s\<lparr>wv_socks := opened rd @ wv_socks s,
    wv_args := (wv_args s)\<lparr>ip_client := wr_addr rd, fd := client_of rd\<rparr>,
    wv_threads := wv_threads s @ (if wr_spawn rd then [client_of rd] else [])\<rparr>"
  have "wp (win_accept_loop server es) (win_loop_post server ?s es) ?s"
    by (rule "6.IH") (simp add: "6.prems")
  moreover have "win_loop_post server ?s es = win_loop_post server s (W_Ready rd # es)"
    by (intro ext, cases "wr_spawn rd") (simp_all add: win_loop_post_def Let_def cong: if_cong split del: if_split)
  ultimately show ?case
    by (simp add: wp_thenM wp_run [where m = "win_serve rd", OF win_serve_thread [OF "6.prems"]])
next
  case (7 server r es)
  show ?case
  proof (cases "fatal r")
    case None
    have "win_loop_post server s es = win_loop_post server s (W_Thread_Ends r # es)"
      using None by (intro ext) (simp add: win_loop_post_def)
    with "7.IH" [OF None "7.prems"] None show ?thesis by simp
  next
    case (Some e)
    then show ?thesis by (simp add: wp_def win_loop_post_def)
  qed
qed (simp_all add: win_loop_post_def Let_def)

text \<open>In thread mode the loop starts a thread for every connection, in order, also for a failed
  \<open>accept\<close>, whose result is not recognised; it ends at the first timeout after Ctrl-C, at the
  first error of \<open>select\<close>, or with a thread that ends the process. The struct that all the threads point to holds the last client.\<close>

theorem win_accept_loop_threads:
  assumes "mode_concurrency (configs (wv_args s)) = M_THREAD"
  shows "wp (win_accept_loop server es)
    (\<lambda>r s'. r = win_result (reset_config (wv_conf s)) es \<and>
      wv_threads s' = wv_threads s @ map client_of (filter wr_spawn (win_rounds (reset_config (wv_conf s)) es)) \<and>
      fd (wv_args s') = last (fd (wv_args s) # map client_of (win_rounds (reset_config (wv_conf s)) es))) s"
  by (rule wp_mono [OF win_accept_loop_post [OF assms]]) (simp add: win_loop_post_def Let_def)

definition a_wserver :: wserver where
  "a_wserver = \<lparr>wv_conf = a_conf, wv_ip = ''g.org'', wv_dos = 0, wv_cwd = ''C:/run'', wv_socks = [3],
     wv_args = \<lparr>fd = 0, configs = a_conf, ip_client = [], type_Request = 0\<rparr>, wv_threads = [], wv_children = []\<rparr>"

definition a_wround :: "nat option \<Rightarrow> wround" where
  "a_wround n = \<lparr>wr_accept = n, wr_addr = ''10.0.0.7'', wr_spawn = True, wr_dup = True, wr_done = True\<rparr>"

theorem win_accept_loop_threads_witness:
  "wp (win_accept_loop 3 [W_Ready (a_wround (Some 4)), W_Ready (a_wround None), W_Console 0, W_Ready (a_wround (Some 5)), W_Timeout])
     (\<lambda>r s'. r = Ret (- 1) \<and> wv_threads s' = [4, - 1, 5] \<and> fd (wv_args s') = 5) a_wserver"
  using win_accept_loop_threads [of a_wserver 3
      "[W_Ready (a_wround (Some 4)), W_Ready (a_wround None), W_Console 0, W_Ready (a_wround (Some 5)), W_Timeout]"]
  by (simp add: a_wserver_def a_conf_def empty_conf_def a_wround_def client_of_def INVALID_SOCKET_def CTRL_C_EVENT_def
      wp_def split_beta)

text \<open>In process mode a request whose process does not end keeps the server from accepting any other:
  it waits for each process before it goes on.\<close>

theorem win_process_mode_waits:
  assumes "mode_concurrency (configs (wv_args s)) = M_PROCESS" and "wr_spawn rd" and "wr_dup rd" and "\<not> wr_done rd"
  shows "fst (win_accept_loop server (W_Ready rd # es) s) = Blocked \<and>
    wv_children (snd (win_accept_loop server (W_Ready rd # es) s)) =
      wv_children s @ [win_cmdline (wr_addr rd) (wv_conf s) (wv_ip s) (wv_dos s)]"
  using assms by (simp add: win_serve_def run_process_def Let_def thenM_def bindM_def getM_def modes)

theorem win_process_mode_waits_witness:
  "\<exists>s. fst (win_accept_loop 3 [W_Ready ((a_wround (Some 4))\<lparr>wr_done := False\<rparr>), W_Ready (a_wround (Some 5))] s) = Blocked"
  using win_process_mode_waits [of "a_wserver\<lparr>wv_args := (wv_args a_wserver)\<lparr>configs := a_conf\<lparr>mode_concurrency := 0\<rparr>\<rparr>\<rparr>"
      "(a_wround (Some 4))\<lparr>wr_done := False\<rparr>" 3 "[W_Ready (a_wround (Some 5))]"]
  by (auto simp: a_wround_def modes simp del: win_accept_loop.simps)

subsection \<open>Threads that share one argument struct\<close>

text \<open>The socket in the struct, the number of started threads, the clients' sockets that are open, and every
  call that a thread has made on a socket, in order. A thread keeps no copy: it reads \<open>args->fd\<close> again
  for every \<open>recv\<close>, \<open>send\<close> and \<open>closesocket\<close>. The loop and the threads go on in any order; \<open>accept\<close>
  gives a socket that is not open.\<close>

datatype sock_call = Recv_Call | Send_Call | Close_Call

record shared =
  sh_fd :: int
  sh_threads :: nat
  sh_open :: "int set"
  sh_calls :: "(nat \<times> sock_call \<times> int) list"

inductive share_step :: "shared \<Rightarrow> shared \<Rightarrow> bool" where
  share_accept: "client \<notin> sh_open s \<Longrightarrow>
    share_step s (s\<lparr>sh_fd := client, sh_threads := Suc (sh_threads s), sh_open := insert client (sh_open s)\<rparr>)"
| share_call: "i < sh_threads s \<Longrightarrow> c \<noteq> Close_Call \<Longrightarrow>
    share_step s (s\<lparr>sh_calls := sh_calls s @ [(i, c, sh_fd s)]\<rparr>)"
| share_close: "i < sh_threads s \<Longrightarrow>
    share_step s (s\<lparr>sh_calls := sh_calls s @ [(i, Close_Call, sh_fd s)], sh_open := sh_open s - {sh_fd s}\<rparr>)"

inductive_cases share_stepE: "share_step s t"

text \<open>A client whose socket has left the struct without a call on it: an invariant of the steps.\<close>

definition unserved :: "int \<Rightarrow> shared \<Rightarrow> bool" where
  "unserved a s \<longleftrightarrow> a \<in> sh_open s \<and> (\<forall>(i, c, d)\<in>set (sh_calls s). d \<noteq> a)"

definition lost :: "int \<Rightarrow> shared \<Rightarrow> bool" where
  "lost a s \<longleftrightarrow> unserved a s \<and> sh_fd s \<noteq> a"

interpretation sharing: step_system "lost a" share_step "lost a" for a
proof unfold_locales
  show "lost a s \<Longrightarrow> share_step s t \<Longrightarrow> lost a t" for s t
    by (erule share_stepE) (auto simp: lost_def unserved_def)
qed



section \<open>The program on Windows\<close>

definition win_reload :: "(nat \<Rightarrow> bool) \<Rightarrow> string option \<Rightarrow> (wserver, int) prog" where
  "win_reload mem content = (\<lambda>s. case conf_parseConfigFile mem content (wv_conf s) (wv_ip s) of
       Ret (n, c, ip) \<Rightarrow> (Ret n, s\<lparr>wv_conf := c, wv_ip := ip\<rparr>)
     | Exit n \<Rightarrow> (Exit n, s) | Thread_Exit \<Rightarrow> (Thread_Exit, s) | Killed n \<Rightarrow> (Killed n, s)
     | UB e \<Rightarrow> (UB e, s) | Blocked \<Rightarrow> (Blocked, s))"

text \<open>One life of the server: the set-up of its socket, its events, and the configuration file that is
  read when it has ended.\<close>

record wlife =
  wl_net :: wnet
  wl_junk :: Configs
  wl_events :: "wevent list"
  wl_mem :: "nat \<Rightarrow> bool"
  wl_content :: "string option"

fun win_run_lives :: "wlife \<Rightarrow> wlife list \<Rightarrow> (wserver, int) prog" where
  "win_run_lives fin [] = windows_socket_runner (wl_net fin) (wl_junk fin) (wl_events fin)"
| "win_run_lives fin (l # ls) =
     bindM (windows_socket_runner (wl_net l) (wl_junk l) (wl_events l)) (\<lambda>_.
     thenM (modM (\<lambda>s. s\<lparr>wv_conf := (wv_conf s)\<lparr>reset_config := False\<rparr>\<rparr>))
     (thenM (win_reload (wl_mem l) (wl_content l)) (win_run_lives fin ls)))"

definition win_read_options :: "string list \<Rightarrow> (wserver, int) prog" where
  "win_read_options argv = (\<lambda>s. case conf_read_opt (Ret 0) argv
         \<lparr>o_conf = wv_conf s, o_ip = wv_ip s, o_dos = wv_dos s, o_daemon = False\<rparr> of
       Ret (n, st) \<Rightarrow> (Ret n, s\<lparr>wv_conf := o_conf st, wv_ip := o_ip st, wv_dos := o_dos st\<rparr>)
     | Exit n \<Rightarrow> (Exit n, s) | Thread_Exit \<Rightarrow> (Thread_Exit, s) | Killed n \<Rightarrow> (Killed n, s)
     | UB e \<Rightarrow> (UB e, s) | Blocked \<Rightarrow> (Blocked, s))"

text \<open>\<open>pipe\<close>: the named pipe can be created; \<open>handler\<close>: the console handler can be set.\<close>

definition main_windows :: "bool \<Rightarrow> (nat \<Rightarrow> bool) \<Rightarrow> string option \<Rightarrow> string list \<Rightarrow> string option \<Rightarrow> bool \<Rightarrow>
    wlife \<Rightarrow> wlife list \<Rightarrow> (wserver, int) prog" where
  "main_windows pipe mem content argv dir handler fin ls =
     thenM (modM (\<lambda>s. s\<lparr>wv_dos := 0\<rparr>))
     (if \<not> pipe then stopM (Exit (- 125))
      else thenM (modM (\<lambda>s. s\<lparr>wv_conf := (wv_conf s)\<lparr>reset_config := False\<rparr>\<rparr>))
       (thenM (win_reload mem content)
       (bindM (win_read_options argv) (\<lambda>r.
        if r \<noteq> 0 then retM 1
        else bindM (stopM (ut_get_cwd dir)) (\<lambda>d.
          thenM (modM (\<lambda>s. s\<lparr>wv_cwd := d\<rparr>))
          (if \<not> handler then retM 1 else win_run_lives fin ls))))))"

text \<open>A life whose socket is set up reaches its loop with a copy of the configuration.\<close>

definition wnet_ok :: "wnet \<Rightarrow> bool" where
  "wnet_ok net \<longleftrightarrow> wn_startup net \<and> wn_socket net \<noteq> None \<and> wn_bind net \<and> wn_listen net"

lemma runner_run:
  assumes "wnet_ok net" and "wn_socket net = Some n" and "length (root_dir (wv_conf s)) < BUFFER_SIZE"
  shows "\<exists>c. windows_socket_runner net c2 es s = win_accept_loop (int n) es
    (s\<lparr>wv_socks := int n # wv_socks s, wv_args := (wv_args s)\<lparr>configs := c\<rparr>\<rparr>) \<and>
    mode_concurrency c = mode_concurrency (wv_conf s) \<and> root_dir c = root_dir (wv_conf s) \<and>
    port_number c = port_number (wv_conf s)"
  using assms
  by (intro exI [of _ "c2\<lparr>reset_config := False, port_number := port_number (wv_conf s),
      mode_concurrency := mode_concurrency (wv_conf s), used_OPTARG := used_OPTARG (wv_conf s),
      root_dir := root_dir (wv_conf s)\<rparr>"])
    (simp add: windows_socket_runner_def wnet_ok_def INVALID_SOCKET_def ut_clone_configs_Ret thenM_def bindM_def
      getM_def whenM_def Let_def)

text \<open>An error of \<open>select\<close> ends a life of the server without closing the listening socket, so every
  life that ends in this way leaves one more socket behind; the end after Ctrl-C closes it.\<close>

theorem win_select_error_leaks_listener:
  assumes "wnet_ok net" and "wn_socket net = Some n" and "length (root_dir (wv_conf s)) < BUFFER_SIZE"
  shows "fst (windows_socket_runner net c2 (W_Select_Err # es) s) = Ret (- 1) \<and>
    wv_socks (snd (windows_socket_runner net c2 (W_Select_Err # es) s)) = int n # wv_socks s \<and>
    fst (windows_socket_runner net c2 [W_Console CTRL_C_EVENT, W_Timeout] s) = Ret (- 1) \<and>
    wv_socks (snd (windows_socket_runner net c2 [W_Console CTRL_C_EVENT, W_Timeout] s)) = wv_socks s"
proof -
  obtain c where "windows_socket_runner net c2 (W_Select_Err # es) s = win_accept_loop (int n) (W_Select_Err # es)
    (s\<lparr>wv_socks := int n # wv_socks s, wv_args := (wv_args s)\<lparr>configs := c\<rparr>\<rparr>)"
    using runner_run [OF assms] by blast
  moreover obtain d where "windows_socket_runner net c2 [W_Console CTRL_C_EVENT, W_Timeout] s =
    win_accept_loop (int n) [W_Console CTRL_C_EVENT, W_Timeout]
    (s\<lparr>wv_socks := int n # wv_socks s, wv_args := (wv_args s)\<lparr>configs := d\<rparr>\<rparr>)"
    using runner_run [OF assms] by blast
  ultimately show ?thesis
    by (simp add: consoleHandler_def thenM_def bindM_def getM_def win_end_server_def)
qed

theorem win_select_error_leaks_listener_witness:
  "\<exists>net. wv_socks (snd (windows_socket_runner net a_conf [W_Select_Err] a_wserver)) = [7, 3]"
  using win_select_error_leaks_listener [of "\<lparr>wn_startup = True, wn_socket = Some 7, wn_bind = True, wn_listen = True\<rparr>" 7
      a_wserver a_conf "[]"]
  by (intro exI [of _ "\<lparr>wn_startup = True, wn_socket = Some 7, wn_bind = True, wn_listen = True\<rparr>"])
    (simp add: wnet_ok_def a_wserver_def a_conf_def BUFFER_SIZE_def)

subsection \<open>The whole program\<close>

lemma win_read_options_none:
  assumes "wv_ip s \<noteq> []"
  shows "win_read_options [] s = (Ret 0, s\<lparr>wv_conf := (wv_conf s)\<lparr>hostname := Host_Ip_Buffer\<rparr>\<rparr>)"
  using assms by (simp add: win_read_options_def conf_read_opt_def Let_def)

lemma win_reload_step:
  assumes "conf_parseConfigFile mem content (wv_conf s) (wv_ip s) = Ret (n, c, ip)"
  shows "win_reload mem content s = (Ret n, s\<lparr>wv_conf := c, wv_ip := ip\<rparr>)"
  using assms by (simp add: win_reload_def)

lemma thread_life:
  assumes "wnet_ok net" and "wn_socket net = Some n" and "length (root_dir (wv_conf s)) < BUFFER_SIZE"
    and "mode_concurrency (wv_conf s) = M_THREAD"
  shows "\<exists>c. mode_concurrency c = M_THREAD \<and> root_dir c = root_dir (wv_conf s) \<and>
    port_number c = port_number (wv_conf s) \<and>
    wp (windows_socket_runner net c2 es) (win_loop_post (int n)
      (s\<lparr>wv_socks := int n # wv_socks s, wv_args := (wv_args s)\<lparr>configs := c\<rparr>\<rparr>) es) s"
proof -
  obtain c where run: "windows_socket_runner net c2 es s = win_accept_loop (int n) es
      (s\<lparr>wv_socks := int n # wv_socks s, wv_args := (wv_args s)\<lparr>configs := c\<rparr>\<rparr>)"
    and c: "mode_concurrency c = mode_concurrency (wv_conf s)" "root_dir c = root_dir (wv_conf s)"
      "port_number c = port_number (wv_conf s)"
    using runner_run [OF assms(1-3)] by blast
  let ?s = "s\<lparr>wv_socks := int n # wv_socks s, wv_args := (wv_args s)\<lparr>configs := c\<rparr>\<rparr>"
  have "wp (win_accept_loop (int n) es) (win_loop_post (int n) ?s es) ?s"
    by (rule win_accept_loop_post) (simp add: c assms(4))
  then have "wp (windows_socket_runner net c2 es) (win_loop_post (int n) ?s es) s"
    by (simp add: wp_def run)
  with c assms(4) show ?thesis by auto
qed

text \<open>The program without options on a valid configuration file in thread mode runs the loop with the
  configuration of the file.\<close>

lemma main_windows_runs:
  assumes "\<forall>n. mem n" and "list_all wf_opt opts" and "each_once opts"
    and "{Opt_Port p, Opt_Mode M_THREAD, Opt_Root d, Opt_Ip h} \<subseteq> set opts" and "length d < BUFFER_SIZE"
    and "length dir < BUFFER_SIZE" and "wnet_ok (wl_net fin)" and "wv_threads s = []"
  shows "\<exists>s'. main_windows True mem (Some (render opts)) [] (Some dir) True fin [] s =
      (win_result False (wl_events fin), s') \<and>
    wv_threads s' = map client_of (filter wr_spawn (win_rounds False (wl_events fin))) \<and>
    port_number (configs (wv_args s')) = word_of_int p \<and> root_dir (configs (wv_args s')) = d \<and>
    wv_ip s' = h \<and> wv_cwd s' = dir"
proof -
  let ?s1 = "s\<lparr>wv_dos := 0, wv_conf := (wv_conf s)\<lparr>reset_config := False\<rparr>\<rparr>"
  let ?c = "(wv_conf ?s1)\<lparr>port_number := word_of_int p, mode_concurrency := M_THREAD,
      root_dir := take BUFFER_SIZE d, hostname := Host_Ip_Buffer, used_OPTARG := 0\<rparr>"
  let ?s2 = "?s1\<lparr>wv_conf := ?c, wv_ip := h\<rparr>"
  let ?s3 = "?s2\<lparr>wv_cwd := dir\<rparr>"
  have load: "win_reload mem (Some (render opts)) ?s1 = (Ret 0, ?s2)"
    by (rule win_reload_step) (rule parse_render_accepts [OF assms(1-4)])
  have "wf_opt (Opt_Ip h)" using assms(2,4) by (auto simp: list_all_iff)
  then have "h \<noteq> []" by (simp add: plain_def)
  then have opts: "win_read_options [] ?s2 = (Ret 0, ?s2)" using win_read_options_none [of ?s2] by simp
  have run: "main_windows True mem (Some (render opts)) [] (Some dir) True fin [] s =
      windows_socket_runner (wl_net fin) (wl_junk fin) (wl_events fin) ?s3"
    using load opts by (simp add: main_windows_def thenM_def bindM_def ut_get_cwd_def assms(6))
  obtain n where n: "wn_socket (wl_net fin) = Some n" using assms(7) by (auto simp: wnet_ok_def)
  have "length (root_dir (wv_conf ?s3)) < BUFFER_SIZE" "mode_concurrency (wv_conf ?s3) = M_THREAD"
    using assms(5) by simp_all
  from thread_life [OF assms(7) n this] obtain c where
    c: "root_dir c = root_dir (wv_conf ?s3)" "port_number c = port_number (wv_conf ?s3)"
    and post: "wp (windows_socket_runner (wl_net fin) (wl_junk fin) (wl_events fin)) (win_loop_post (int n)
      (?s3\<lparr>wv_socks := int n # wv_socks ?s3, wv_args := (wv_args ?s3)\<lparr>configs := c\<rparr>\<rparr>) (wl_events fin)) ?s3"
    by blast
  show ?thesis
    using post assms(5,8) c unfolding run
    by (cases "windows_socket_runner (wl_net fin) (wl_junk fin) (wl_events fin) ?s3")
      (simp add: wp_def win_loop_post_def Let_def)
qed

definition a_wlife :: "wevent list \<Rightarrow> wlife" where
  "a_wlife es = \<lparr>wl_net = \<lparr>wn_startup = True, wn_socket = Some 7, wn_bind = True, wn_listen = True\<rparr>, wl_junk = a_conf,
     wl_events = es, wl_mem = (\<lambda>_. True), wl_content = None\<rparr>"

subsection \<open>Ctrl-C\<close>

text \<open>Claim C32. Ctrl-C, in thread mode, with a valid configuration file: at the next timeout the listening socket is
  closed and no other, and the next life runs with the configuration of the file. Until then the loop goes
  on starting threads.\<close>

theorem win_ctrl_c_reloads:
  assumes "wnet_ok (wl_net l)" and "wn_socket (wl_net l) = Some n" and "length (root_dir (wv_conf s)) < BUFFER_SIZE"
    and "mode_concurrency (wv_conf s) = M_THREAD" and "wl_events l = es @ [W_Timeout]"
    and "\<not> win_ends (reset_config (wv_conf s)) es" and "W_Console CTRL_C_EVENT \<in> set es"
    and "int n \<notin> client_of ` set (win_rounds (reset_config (wv_conf s)) es)"
    and "\<forall>n. wl_mem l n" and "wl_content l = Some (render opts)" and "list_all wf_opt opts" and "each_once opts"
    and "{Opt_Port p, Opt_Mode m, Opt_Root d, Opt_Ip h} \<subseteq> set opts"
  shows "\<exists>s'. win_run_lives fin (l # ls) s = win_run_lives fin ls s' \<and>
    wv_conf s' = (wv_conf s)\<lparr>port_number := word_of_int p, mode_concurrency := m,
      root_dir := take BUFFER_SIZE d, used_OPTARG := 0, reset_config := False, hostname := Host_Ip_Buffer\<rparr> \<and>
    wv_ip s' = h \<and> wv_socks s' = win_socks (win_rounds (reset_config (wv_conf s)) es) @ wv_socks s \<and>
    wv_threads s' = wv_threads s @
      map client_of (filter wr_spawn (win_rounds (reset_config (wv_conf s)) es))"
proof -
  let ?rds = "win_rounds (reset_config (wv_conf s)) es"
  have flag: "win_flag (reset_config (wv_conf s)) es" using win_flag_ctrl_c [OF assms(6,7)] .
  have keep: "remove1 (int n) (win_socks ?rds @ int n # wv_socks s) = win_socks ?rds @ wv_socks s"
    using assms(8) set_win_socks [of ?rds] by (auto simp: remove1_append)
  obtain c where "wp (windows_socket_runner (wl_net l) (wl_junk l) (wl_events l)) (win_loop_post (int n)
      (s\<lparr>wv_socks := int n # wv_socks s, wv_args := (wv_args s)\<lparr>configs := c\<rparr>\<rparr>) (wl_events l)) s"
    using thread_life [OF assms(1-4)] by blast
  then obtain s1 where s1: "windows_socket_runner (wl_net l) (wl_junk l) (wl_events l) s = (Ret (- 1), s1)"
    and f1: "wv_conf s1 = (wv_conf s)\<lparr>reset_config := True\<rparr>"
      "wv_socks s1 = win_socks ?rds @ wv_socks s" "wv_threads s1 = wv_threads s @ map client_of (filter wr_spawn ?rds)"
    using assms(6) flag keep
    by (cases "windows_socket_runner (wl_net l) (wl_junk l) (wl_events l) s")
      (simp add: wp_def win_loop_post_def Let_def assms(5) win_append)
  let ?s2 = "s1\<lparr>wv_conf := (wv_conf s1)\<lparr>reset_config := False\<rparr>\<rparr>"
  obtain s3 where s3: "win_reload (wl_mem l) (wl_content l) ?s2 = (Ret 0, s3)" and
    f3: "s3 = ?s2\<lparr>wv_conf := (wv_conf ?s2)\<lparr>port_number := word_of_int p, mode_concurrency := m,
      root_dir := take BUFFER_SIZE d, hostname := Host_Ip_Buffer, used_OPTARG := 0\<rparr>, wv_ip := h\<rparr>"
    unfolding assms(10)
    using win_reload_step [OF parse_render_accepts [OF assms(9,11-13), of "wv_conf ?s2" "wv_ip ?s2"]] by blast
  have "win_run_lives fin (l # ls) s = win_run_lives fin ls s3"
    using s1 s3 by (simp add: bindM_def thenM_def)
  then show ?thesis
    by (rule exI [of _ s3, OF conjI]) (auto simp: f3 f1)
qed

theorem win_ctrl_c_reloads_witness:
  "\<exists>s'. win_run_lives (a_wlife [])
       [(a_wlife [W_Ready (a_wround (Some 4)), W_Console CTRL_C_EVENT, W_Ready (a_wround (Some 5)), W_Timeout])
          \<lparr>wl_content := Some (render sample_opts)\<rparr>] a_wserver = win_run_lives (a_wlife []) [] s' \<and>
     wv_socks s' = [5, 4, 3] \<and> wv_threads s' = [4, 5] \<and> wv_ip s' = ''g.org''"
proof -
  let ?es = "[W_Ready (a_wround (Some 4)), W_Console CTRL_C_EVENT, W_Ready (a_wround (Some 5))]"
  let ?l = "(a_wlife (?es @ [W_Timeout]))\<lparr>wl_content := Some (render sample_opts)\<rparr>"
  have "\<exists>s'. win_run_lives (a_wlife []) [?l] a_wserver = win_run_lives (a_wlife []) [] s' \<and>
    wv_conf s' = (wv_conf a_wserver)\<lparr>port_number := word_of_int 7080, mode_concurrency := M_THREAD,
      root_dir := take BUFFER_SIZE ''.'', used_OPTARG := 0, reset_config := False, hostname := Host_Ip_Buffer\<rparr> \<and>
    wv_ip s' = ''g.org'' \<and>
    wv_socks s' = win_socks (win_rounds (reset_config (wv_conf a_wserver)) ?es) @ wv_socks a_wserver \<and>
    wv_threads s' = wv_threads a_wserver @
      map client_of (filter wr_spawn (win_rounds (reset_config (wv_conf a_wserver)) ?es))"
    by (rule win_ctrl_c_reloads [where n = 7 and opts = sample_opts])
      (simp_all add: a_wlife_def wnet_ok_def a_wserver_def a_conf_def empty_conf_def BUFFER_SIZE_def a_wround_def client_of_def
        sample_opts_def plain_def each_once_def once_def)
  then show ?thesis
    by (simp add: a_wserver_def a_conf_def empty_conf_def opened_def a_wround_def client_of_def INVALID_SOCKET_def) blast
qed

text \<open>The flag is only looked at when \<open>select\<close> times out: as long as connections come in time, Ctrl-C has no
  effect.\<close>

theorem win_ctrl_c_waits_for_pause:
  assumes "mode_concurrency (configs (wv_args s)) = M_THREAD" and "W_Timeout \<notin> set es" and "W_Select_Err \<notin> set es"
    and "\<forall>r. W_Thread_Ends r \<notin> set es"
  shows "wp (win_accept_loop server es) (\<lambda>r s'. r = Blocked \<and>
    wv_threads s' = wv_threads s @ map client_of (filter wr_spawn [rd. W_Ready rd \<leftarrow> es])) s"
proof -
  have "\<not> win_ends reset es \<and> win_rounds reset es = [rd. W_Ready rd \<leftarrow> es]" for reset
    using assms(2-4) by (induction reset es rule: win_ends.induct) auto
  then show ?thesis
    by (intro wp_mono [OF win_accept_loop_post [OF assms(1)]]) (simp add: win_loop_post_def Let_def win_result_goes_on)
qed

theorem win_ctrl_c_waits_for_pause_witness:
  "wp (win_accept_loop 3 [W_Console CTRL_C_EVENT, W_Ready (a_wround (Some 4)), W_Ready (a_wround (Some 5))])
     (\<lambda>r s'. r = Blocked \<and> wv_threads s' = [4, 5]) a_wserver"
  using win_ctrl_c_waits_for_pause [of a_wserver "[W_Console CTRL_C_EVENT, W_Ready (a_wround (Some 4)), W_Ready (a_wround (Some 5))]" 3]
  by (simp add: a_wserver_def a_conf_def a_wround_def client_of_def)

end
