(* ===== verification/WinRequest.thy ===== *)
theory WinRequest
  imports WinSocket
begin

text \<open>
  A request on Windows: \<open>handle_request\<close> of \<open>windows/lib/socket/windows_socket.c\<close> with the parts of
  \<open>socket.c\<close>, \<open>protocol.c\<close> and \<open>files_interaction.c\<close> as they are compiled there.

  \<^item> The functions that call \<open>clean_request\<close>, \<open>blackListFile\<close> or use \<open>OS_SEPARATOR\<close> are compiled with
    the Windows versions; the receive loop and the listing take theirs as arguments.
  \<^item> The argument struct is a variable on the stack of the loop or of \<open>main\<close>, so \<open>Blk_Args\<close> is not a
    block of the heap here. The theorems show what follows for every request.
  \<^item> This is one request by itself: no other connection overwrites the shared struct meanwhile.
    There is no \<open>SIGPIPE\<close> on Windows (\<open>No_Sigpipe\<close>): a \<open>send\<close> on a connection that was reset fails.
\<close>

section \<open>Definitions\<close>

definition WIN_SEPARATOR :: char where "WIN_SEPARATOR = BACKSLASH"

text \<open>The calls of a request. \<open>we_run\<close> and \<open>we_write\<close> are the calls that start the log process and
  those that write to it, \<open>we_pipe\<close> is whether there is a pipe from before.\<close>

record wenv =
  we_stat :: "string \<Rightarrow> 32 word option"
  we_fullpath :: "string \<Rightarrow> string option"
  we_opendir :: "string \<Rightarrow> string list option"
  we_file :: "string \<Rightarrow> win_file"
  we_ptr :: int
  we_run :: pipe_calls
  we_write :: pipe_calls
  we_pipe :: bool
  we_event :: bool

definition win_resolve_selector :: "string \<Rightarrow> string \<Rightarrow> (world, int \<times> string option) prog" where
  "win_resolve_selector gopher_root selector =
     (let cap = length gopher_root + 1 + length selector + 4;
          rel = (if selector \<noteq> [] \<and> hd selector = WIN_SEPARATOR then drop 1 selector else selector)
      in bindM (callocM Blk_Path) (\<lambda>ok.
         if \<not> ok then retM (NO_FREE, None)
         else if gopher_root = [] then stopM (UB Out_Of_Bounds)
         else (let text = (if last gopher_root = WIN_SEPARATOR then gopher_root @ rel
                           else gopher_root @ WIN_SEPARATOR # rel)
               in bindM (stopM (sprintf_to cap text)) (\<lambda>ret.
                  if ret < 0 then retM (NEED_TO_FREE, Some text)
                  else retM (0, Some text)))))"

definition win_socket_resolve_selector :: "string \<Rightarrow> (world, string option) prog" where
  "win_socket_resolve_selector buf =
     bindM (getM (\<lambda>w. root_dir (configs (w_args w)))) (\<lambda>root.
     bindM (stopM (array_str BUFFER_SIZE root)) (\<lambda>gopher_root.
     bindM (win_resolve_selector gopher_root buf) (\<lambda>(ret, path).
     if ret = NO_FREE then win_clean_request False True
     else if ret = NEED_TO_FREE then win_clean_request (path \<noteq> None) True
     else retM path)))"

definition win_socket_read_request :: "(world, int \<times> char list) prog" where
  "win_socket_read_request =
     bindM (callocM Blk_Buf) (\<lambda>ok.
     if \<not> ok then win_clean_request False False
     else read_loop win_clean_request (replicate (BUFFER_SIZE + 1) NUL) 0)"

definition win_send_error_to_client :: "string \<Rightarrow> string \<Rightarrow> (world, 'a) prog" where
  "win_send_error_to_client path buf =
     bindM (getM (\<lambda>w. port_int (configs (w_args w)))) (\<lambda>port.
     bindM (protocol_response Blk_Msg (chr (CHR ''3'')) buf path ''localhost'' port) (\<lambda>(err, m).
     if err \<noteq> 0 then win_clean_request True True
     else thenM (socket_send_message (the m))
         (thenM (whenM (m \<noteq> None) (freeM Blk_Msg))
         (win_clean_request True True))))"

definition win_send_too_long_error_to_client :: "bool \<Rightarrow> (world, 'a) prog" where
  "win_send_too_long_error_to_client path =
     bindM (getM (\<lambda>w. port_int (configs (w_args w)))) (\<lambda>port.
     bindM (stopM (sprintf_to 50 (too_long_text port))) (\<lambda>ret.
     thenM (if 0 \<le> ret then thenM (socket_send_message (too_long_text port)) (retM ()) else retM ())
     (win_clean_request path True)))"

unbundle bit_operations_syntax

text \<open>Everything but 0 from \<open>blackListFile\<close>, also its error, forbids the file.\<close>

definition win_file_type :: "wenv \<Rightarrow> string \<Rightarrow> string \<Rightarrow> int" where
  "win_file_type env d filename =
     (case we_stat env filename of
        None \<Rightarrow> FILES_NOT_EXIST
      | Some st_mode \<Rightarrow>
          if st_mode AND S_IFDIR \<noteq> 0 then FILES_IS_DIRECTORY
          else if st_mode AND S_IFREG \<noteq> 0 then
            (if win_blackListFile (we_fullpath env) d filename log_file_name \<noteq> 0
             then FILES_NOT_PERMITTED else FILES_IS_REG_FILE)
          else FILES_IS_UNMANAGED_FILE)"

text \<open>Reporting a transfer. In thread mode a log process is started for it first. \<open>plog\<close> collects what
  is written to the pipe; the standard output that the calls leave behind is only printed to.\<close>

definition win_report :: "wenv \<Rightarrow> bool \<Rightarrow> PipeArgs \<Rightarrow> (world, unit) prog" where
  "win_report env thread a =
     (let (status, std_out) = (if thread then pipe_run_process (we_run env) Std_Own else (0, Std_Own));
          pipe_valid = (we_pipe env \<or> thread \<and> pc_create_pipe (we_run env))
      in bindM (stopM (pipe_simple_write_to_pipe (we_write env) pipe_valid (we_event env) a ([], std_out)))
         (\<lambda>(ret, written, std_out'). whenM (written \<noteq> []) (log_message written)))"

definition win_socket_manage_files :: "wenv \<Rightarrow> string \<Rightarrow> string \<Rightarrow> (world, unit) prog" where
  "win_socket_manage_files env path buf =
     bindM (getM (\<lambda>w. win_file_type env (cwd w) path)) (\<lambda>type_file.
     thenM (if FILES_NOT_EXIST = type_file \<or> type_file = FILES_NOT_PERMITTED then
              thenM (set_type_Request 1) (win_send_error_to_client path buf)
            else retM ())
     (let code = win_getGopherCode path
      in thenM (if code < 0 then win_clean_request True True else retM ())
     (if FILES_IS_DIRECTORY = type_file then
        thenM (set_type_Request 1)
        (bindM (getM (\<lambda>w. port_int (configs (w_args w)))) (\<lambda>port.
         thenM (print_directory (we_opendir env) (\<lambda>p. retM (win_getGopherCode p)) path socket_send_message port)
         (retM ())))
      else if FILES_IS_REG_FILE = type_file then
        thenM (set_type_Request 0)
        (bindM (windows_memory_mapping (we_ptr env) (we_file env path)) (\<lambda>dim_file_to_send.
         bindM (getM w_args) (\<lambda>args.
         win_report env (mode_concurrency (configs args) = M_THREAD)
           \<lparr>pa_ip = ip_client args, pa_dim = dim_file_to_send, pa_path = path, pa_port = port_int (configs args)\<rparr>)))
      else retM ())))"

definition win_handle_request :: "wenv \<Rightarrow> (world, unit) prog" where
  "win_handle_request env =
     bindM win_socket_read_request (\<lambda>(ret, buffer).
     bindM (win_socket_resolve_selector (cstr buffer)) (\<lambda>path.
     thenM (if ret = - 2 then win_send_too_long_error_to_client (path \<noteq> None) else retM ())
     (thenM (win_socket_manage_files env (the path) (cstr buffer))
     (win_clean_request (path \<noteq> None) True))))"

section \<open>No request ends as it should\<close>

text \<open>\<open>afoot\<close>: the arguments are still not a heap block, and the call has returned, or it has ended
  in undefined behaviour or by the assertion on the file size, or it waits for a client. \<open>obs\<close> are the
  obstacles of the world.\<close>

definition off_heap :: "obstacle set \<Rightarrow> world \<Rightarrow> bool" where
  "off_heap obs w \<longleftrightarrow> Blk_Args \<notin> set (live w) \<and> real_port w \<and> obstacles w = obs \<and> No_Sigpipe \<in> obs"

definition afoot :: "obstacle set \<Rightarrow> 'a res \<Rightarrow> world \<Rightarrow> bool" where
  "afoot obs r w \<longleftrightarrow> off_heap obs w \<and>
     (case r of Ret x \<Rightarrow> True | UB e \<Rightarrow> True | Exit n \<Rightarrow> n = 3
      | Blocked \<Rightarrow> Client_Silent \<in> obs \<or> Client_Stalled \<in> obs | _ \<Rightarrow> False)"

lemma afoot_simps [simp]:
  "afoot obs (Ret x) w \<longleftrightarrow> off_heap obs w" "afoot obs (UB e) w \<longleftrightarrow> off_heap obs w"
  "afoot obs Blocked w \<longleftrightarrow> off_heap obs w \<and> (Client_Silent \<in> obs \<or> Client_Stalled \<in> obs)"
  "afoot obs (Exit 3) w \<longleftrightarrow> off_heap obs w" "\<not> afoot obs Thread_Exit w" "\<not> afoot obs (Killed n) w"
  by (simp_all add: afoot_def)

lemma off_heap_upd [simp]:
  "off_heap obs (w\<lparr>rx := x\<rparr>) = off_heap obs w" "off_heap obs (w\<lparr>tx := t\<rparr>) = off_heap obs w"
  "off_heap obs (w\<lparr>oom := m\<rparr>) = off_heap obs w" "off_heap obs (w\<lparr>out := s\<rparr>) = off_heap obs w"
  "off_heap obs (w\<lparr>closes := n\<rparr>) = off_heap obs w" "off_heap obs (w\<lparr>plog := l\<rparr>) = off_heap obs w"
  "off_heap obs (w\<lparr>file_open := b\<rparr>) = off_heap obs w" "off_heap obs (w\<lparr>file_lock := c\<rparr>) = off_heap obs w"
  "off_heap obs (w\<lparr>w_args := (w_args w)\<lparr>type_Request := k\<rparr>\<rparr>) = off_heap obs w"
  by (simp_all add: off_heap_def real_port_def)

lemma off_heap_live [simp]:
  "b \<noteq> Blk_Args \<Longrightarrow> off_heap obs (w\<lparr>live := b # l\<rparr>) = off_heap obs (w\<lparr>live := l\<rparr>)"
  "off_heap obs (w\<lparr>live := live w\<rparr>) = off_heap obs w"
  by (auto simp: off_heap_def real_port_def)

lemma off_heap_remove: "off_heap obs w \<Longrightarrow> off_heap obs (w\<lparr>live := remove1 b (live w)\<rparr>)"
  by (auto simp: off_heap_def real_port_def notin_set_remove1)

lemma off_heap_frame: "off_heap obs w \<Longrightarrow> frame w w' \<Longrightarrow> off_heap obs w'"
  using core_mem [of Blk_Args w] core_mem [of Blk_Args w']
  by (simp add: off_heap_def real_port_def frame_def core_def)

lemma afoot_bind:
  assumes "wp m (afoot obs) w" and "\<And>x v. off_heap obs v \<Longrightarrow> wp (f x) (afoot obs) v"
  shows "wp (bindM m f) (afoot obs) w"
  by (rule wp_seqI [OF assms(1)]) (use assms(2) in \<open>auto simp: afoot_def\<close>)

lemma afoot_then:
  assumes "wp m (afoot obs) w" and "\<And>v. off_heap obs v \<Longrightarrow> wp n (afoot obs) v"
  shows "wp (thenM m n) (afoot obs) w"
  unfolding thenM_def by (rule afoot_bind [OF assms])

lemma afoot_free: "off_heap obs w \<Longrightarrow> wp (freeM b) (afoot obs) w"
  by (simp add: wp_freeM off_heap_remove)

lemma afoot_send: "off_heap obs w \<Longrightarrow> wp (sendM m) (afoot obs) w"
  by (simp add: wp_sendM off_heap_def real_port_def split: list.split tx_event.split)

lemma afoot_calloc: "off_heap obs w \<Longrightarrow> b \<noteq> Blk_Args \<Longrightarrow> wp (callocM b) (afoot obs) w"
  by (simp add: wp_callocM split: list.split)

text \<open>The end of a request: it always frees its arguments.\<close>

definition crashes :: "obstacle set \<Rightarrow> 'a res \<Rightarrow> world \<Rightarrow> bool" where
  "crashes obs r w \<longleftrightarrow> afoot obs r w \<and> \<not> returns r"

lemma crashes_afoot: "wp m (crashes obs) w \<Longrightarrow> wp m (afoot obs) w"
  by (erule wp_mono) (simp add: crashes_def)

lemma clean_crashes: "off_heap obs w \<Longrightarrow> wp (win_clean_request path buf) (crashes obs) w"
  using off_heap_remove [of obs w Blk_Path] off_heap_remove [of obs w Blk_Buf]
    off_heap_remove [of obs "w\<lparr>live := remove1 Blk_Path (live w)\<rparr>" Blk_Buf]
  by (auto simp: win_clean_request_def wp_rules crashes_def) (auto simp: off_heap_def)

lemma crash_bind:
  assumes "wp m (afoot obs) w" and "\<And>x v. off_heap obs v \<Longrightarrow> wp (f x) (crashes obs) v"
  shows "wp (bindM m f) (crashes obs) w"
  by (rule wp_seqI [OF assms(1)]) (use assms(2) in \<open>auto simp: afoot_def crashes_def\<close>)

lemma crash_then:
  assumes "wp m (afoot obs) w" and "\<And>v. off_heap obs v \<Longrightarrow> wp n (crashes obs) v"
  shows "wp (thenM m n) (crashes obs) w"
  unfolding thenM_def by (rule crash_bind [OF assms])

lemmas clean_afoot = crashes_afoot [OF clean_crashes]

lemma read_loop_afoot: "off_heap obs w \<Longrightarrow> wp (read_loop win_clean_request buf ptr) (afoot obs) w"
proof (induction w arbitrary: buf ptr rule: measure_induct_rule [of rx_weight])
  case (less w)
  show ?case
  proof (cases rule: recvM_total [of "BUFFER_SIZE - ptr" w])
    case silent
    then show ?thesis using less.prems by (auto simp: wp_def loops_blocked(2) off_heap_def afoot_def)
  next
    case (got r rx')
    note r = got(1)
    let ?w1 = "w\<lparr>rx := rx'\<rparr>"
    have again: "wp (read_loop win_clean_request b n) (afoot obs) ?w1" if "rx_weight ?w1 < rx_weight w" for b n
      using less that by simp
    have clean: "wp (win_clean_request False True :: (world, int \<times> char list) prog) (afoot obs) ?w1"
      by (rule clean_afoot) (use less.prems in simp)
    have drain: "wp (thenM socket_drain_tcp (retM x)) (afoot obs) (?w1\<lparr>w_args := (w_args w)\<lparr>type_Request := 1\<rparr>\<rparr>)" for x :: "int \<times> char list"
    proof (rule afoot_then)
      show "wp socket_drain_tcp (afoot obs) (?w1\<lparr>w_args := (w_args w)\<lparr>type_Request := 1\<rparr>\<rparr>)"
        by (rule wp_mono [OF drain_ends]) (use less.prems in \<open>auto simp: drained_def off_heap_def real_port_def\<close>)
    qed simp
    show ?thesis
    proof (cases r)
      case Recv_Eintr
      then have "rx_weight ?w1 < rx_weight w" using r recvM_weight by blast
      from again [OF this] show ?thesis
        using Recv_Eintr read_step [OF r, of win_clean_request buf] by (simp add: wp_fst_snd)
    next
      case Recv_Error
      then show ?thesis
        using read_step [OF r, of win_clean_request buf] clean by (simp add: wp_fst_snd)
    next
      case (Got bs)
      show ?thesis
      proof (cases "bs = []")
        case True
        then show ?thesis
          using Got read_step [OF r, of win_clean_request buf] clean less.prems by (simp add: wp_fst_snd)
      next
        case False
        then have "rx_weight ?w1 < rx_weight w" using r Got recvM_weight by blast
        from again [OF this] show ?thesis
          using Got False read_step [OF r, of win_clean_request buf] drain less.prems
          by (simp add: wp_fst_snd Let_def split: res.split prod.split)
      qed
    qed
  qed
qed

lemma read_request_afoot: "off_heap obs w \<Longrightarrow> wp win_socket_read_request (afoot obs) w"
  unfolding win_socket_read_request_def
  by (rule afoot_bind [OF afoot_calloc]) (simp_all add: clean_afoot read_loop_afoot)

lemma resolve_afoot: "off_heap obs w \<Longrightarrow> wp (win_socket_resolve_selector sel) (afoot obs) w"
  unfolding win_socket_resolve_selector_def win_resolve_selector_def
  by (auto simp: wp_rules array_str_def sprintf_to_def free_codes Let_def clean_afoot split: list.split)

lemma protocol_response_afoot:
  "off_heap obs w \<Longrightarrow> b \<noteq> Blk_Args \<Longrightarrow> wp (protocol_response b type f p h port) (afoot obs) w"
  by (simp add: wp_protocol_response wp_callocM split: list.split)

lemma send_message_afoot: "off_heap obs w \<Longrightarrow> wp (socket_send_message m) (afoot obs) w"
  unfolding socket_send_message_def by (rule afoot_bind [OF afoot_send]) simp_all

lemma send_error_crashes: "off_heap obs w \<Longrightarrow> wp (win_send_error_to_client path buf) (crashes obs) w"
  unfolding win_send_error_to_client_def
  by (auto simp: wp_bindM [of "getM _"] whenM_def clean_crashes send_message_afoot afoot_free
      intro!: crash_bind crash_then protocol_response_afoot)

lemma send_too_long_crashes: "off_heap obs w \<Longrightarrow> wp (win_send_too_long_error_to_client path) (crashes obs) w"
  unfolding win_send_too_long_error_to_client_def
  by (auto simp: wp_bindM [of "getM _"] sprintf_to_def clean_crashes send_message_afoot
      intro!: crash_bind crash_then afoot_then)

lemma windows_memory_mapping_afoot: "off_heap obs w \<Longrightarrow> wp (windows_memory_mapping p f) (afoot obs) w"
  unfolding windows_memory_mapping_def windows_sendFile_def windows_GetFileSize_def view_str_def
  by (auto simp: wp_rules wp_if_late split: option.split list.split tx_event.split) (auto simp: off_heap_def)

lemma report_afoot: "off_heap obs w \<Longrightarrow> wp (win_report env thread a) (afoot obs) w"
  unfolding win_report_def
  by (auto simp: wp_rules pipe_simple_write_to_pipe_def message_array_def sprintf_to_def Let_def
      split: prod.split)

lemma listing_afoot:
  assumes "listing_ends w r w'" and "off_heap obs w"
  shows "afoot obs r w'"
proof -
  have "off_heap obs w'"
    using assms by (auto simp: listing_ends_def intro: off_heap_frame)
  then show ?thesis
    using assms by (cases r) (simp_all add: listing_ends_def off_heap_def afoot_def)
qed

lemma directory_afoot:
  assumes "off_heap obs w"
  shows "wp (print_directory opendir (\<lambda>p. retM (win_getGopherCode p)) path socket_send_message
    (port_int (configs (w_args w)))) (afoot obs) w"
proof -
  have "0 \<le> port_int (configs (w_args w))" "port_int (configs (w_args w)) < 65536"
    using assms by (simp_all add: off_heap_def real_port_def)
  then have "wp (print_entries (\<lambda>p. retM (win_getGopherCode p)) path socket_send_message
      (port_int (configs (w_args w))) es) (listing_ends w) w" for es
    by (intro win_list.print_entries_ends) simp_all
  then have "wp (print_entries (\<lambda>p. retM (win_getGopherCode p)) path socket_send_message
      (port_int (configs (w_args w))) es) (afoot obs) w" for es
    by (rule wp_mono) (rule listing_afoot [OF _ assms])
  then show ?thesis using assms by (simp add: print_directory_def split: option.split)
qed

lemma directory_step_afoot:
  "off_heap obs w \<Longrightarrow> wp (bindM (getM (\<lambda>w. port_int (configs (w_args w)))) (\<lambda>port.
     thenM (print_directory opendir (\<lambda>p. retM (win_getGopherCode p)) path socket_send_message port) (retM ()))) (afoot obs) w"
  by (simp add: wp_bindM afoot_then [OF directory_afoot])

lemma transfer_step_afoot:
  "off_heap obs w \<Longrightarrow> wp (bindM (windows_memory_mapping p f) (\<lambda>n. bindM (getM w_args) (\<lambda>args.
     win_report env (g args) (h n args)))) (afoot obs) w"
  by (rule afoot_bind [OF windows_memory_mapping_afoot]) (simp_all add: wp_bindM report_afoot)

lemma set_type_afoot: "off_heap obs w \<Longrightarrow> wp (set_type_Request n) (afoot obs) w"
  by (simp add: wp_set_type_Request)

lemma manage_files_afoot: "off_heap obs w \<Longrightarrow> wp (win_socket_manage_files env path buf) (afoot obs) w"
  unfolding win_socket_manage_files_def Let_def
  by (subst wp_bindM) (auto simp: clean_afoot set_type_afoot
      intro!: afoot_then crashes_afoot [OF send_error_crashes] transfer_step_afoot directory_step_afoot)

lemma handle_request_crashes: "off_heap obs w \<Longrightarrow> wp (win_handle_request env) (crashes obs) w"
  unfolding win_handle_request_def
  by (auto simp: split_beta clean_crashes intro!: crash_bind crash_then read_request_afoot resolve_afoot
      crashes_afoot [OF send_too_long_crashes] manage_files_afoot)

lemma win_request_ends:
  assumes "Blk_Args \<notin> set (live w)" and "real_port w" and "No_Sigpipe \<in> obstacles w"
  shows "wp (win_handle_request env) (\<lambda>r w'. (\<exists>e. r = UB e) \<or> r = Exit 3 \<or>
    r = Blocked \<and> (Client_Silent \<in> obstacles w \<or> Client_Stalled \<in> obstacles w)) w"
proof -
  have "wp (win_handle_request env) (crashes (obstacles w)) w"
    using assms by (intro handle_request_crashes) (simp add: off_heap_def)
  then show ?thesis by (rule wp_mono) (auto simp: crashes_def afoot_def split: res.splits)
qed


section \<open>What a request is answered\<close>

definition win_resolved :: "string \<Rightarrow> string \<Rightarrow> string" where
  "win_resolved root sel =
     (if last root = WIN_SEPARATOR then root else root @ [WIN_SEPARATOR]) @
     (if sel \<noteq> [] \<and> hd sel = WIN_SEPARATOR then drop 1 sel else sel)"

abbreviation win_item :: "string \<Rightarrow> int res" where
  "win_item p \<equiv> Ret (win_getGopherCode p)"

definition win_answer :: "wenv \<Rightarrow> string \<Rightarrow> string \<Rightarrow> int \<Rightarrow> string \<Rightarrow> string \<Rightarrow> string" where
  "win_answer env d host port path sel =
     (let t = win_file_type env d path
      in if t = FILES_NOT_EXIST \<or> t = FILES_NOT_PERMITTED then error_line sel port
         else if t = FILES_IS_DIRECTORY then listing win_item path host port (the (we_opendir env path))
         else if t = FILES_IS_REG_FILE then cstr (the (wf_view (we_file env path)))
         else [])"

text \<open>The message that is written to the pipe.\<close>

definition win_log_text :: "world \<Rightarrow> string \<Rightarrow> int \<Rightarrow> string" where
  "win_log_text w path n =
     pipe_text \<lparr>pa_ip = ip_client (w_args w), pa_dim = n, pa_path = path, pa_port = port_int (configs (w_args w))\<rparr> @
       [TAB] @ '' Port: '' @ show_int (port_int (configs (w_args w))) @ '' '' @ [NL]"

definition win_log_bytes :: "world \<Rightarrow> string \<Rightarrow> int \<Rightarrow> char list" where
  "win_log_bytes w path n = win_log_text w path n @ replicate (BUFFER_SIZE * 2 - length (win_log_text w path n)) NUL"

text \<open>No call that the path needs fails, and the message fits its array.\<close>

definition win_healthy :: "wenv \<Rightarrow> world \<Rightarrow> string \<Rightarrow> bool" where
  "win_healthy env w path \<longleftrightarrow>
     (let t = win_file_type env (cwd w) path
      in (t = FILES_IS_DIRECTORY \<longrightarrow> we_opendir env path \<noteq> None) \<and>
         (t = FILES_IS_REG_FILE \<longrightarrow> (\<exists>c. we_file env path = a_file c \<and> c \<noteq> [] \<and> length c < 2 ^ 31 \<and>
            (NUL \<in> set c \<or> length c mod PAGE \<noteq> 0)) \<and>
            we_pipe env \<and> pc_redirect (we_write env) \<and>
            length (win_log_text w path (we_ptr env)) < BUFFER_SIZE * 2))"

definition threaded :: "world \<Rightarrow> bool" where
  "threaded w \<longleftrightarrow> mode_concurrency (configs (w_args w)) = M_THREAD"

text \<open>The complete outcome: the answer is delivered, the connection is closed in thread mode only, and
  then the argument struct is freed.\<close>

definition win_answered :: "wenv \<Rightarrow> world \<Rightarrow> string \<Rightarrow> string \<Rightarrow> 'a res \<Rightarrow> world \<Rightarrow> bool" where
  "win_answered env w path sel r w' \<longleftrightarrow>
     r = UB Double_Free \<and>
     out w' = out w @ win_answer env (cwd w) (ip_buffer w) (port_int (configs (w_args w))) path sel \<and>
     closes w' = (if threaded w then Suc (closes w) else closes w) \<and>
     plog w' = plog w @ (if win_file_type env (cwd w) path = FILES_IS_REG_FILE
       then [win_log_bytes w path (we_ptr env)] else [])"

definition struck :: "world \<Rightarrow> 'a res \<Rightarrow> world \<Rightarrow> bool" where
  "struck w r w' \<longleftrightarrow> r = UB Double_Free \<and> out w' = out w \<and> plog w' = plog w \<and>
     closes w' = (if threaded w then Suc (closes w) else closes w)"

text \<open>A handler that still has its two blocks, on a network that takes everything.\<close>

definition win_ready :: "world \<Rightarrow> bool" where
  "win_ready w \<longleftrightarrow> off_heap (obstacles w) w \<and> {Blk_Buf, Blk_Path} \<subseteq> set (live w) \<and> oom w = [] \<and> send_ready w"

lemma clean_struck:
  "off_heap obs w \<Longrightarrow> {Blk_Buf, Blk_Path} \<subseteq> set (live w) \<Longrightarrow> wp (win_clean_request True True) (struck w) w"
  by (auto simp: win_clean_request_def wp_rules struck_def threaded_def off_heap_def notin_set_remove1)

lemma struck_seq_post: "struck v r w' \<Longrightarrow> (\<And>r w'. struck v r w' \<Longrightarrow> Q r w') \<Longrightarrow> seq_post f Q r w'"
  by (cases r) (auto simp: struck_def)

lemma win_read_run:
  assumes "oom w = []" and "sock_usable w" and "list_all segment (rx w)"
    and "payload (rx w) \<noteq> []" and "length (payload (rx w)) < BUFFER_SIZE"
    and "Client_Silent \<in> obstacles w \<Longrightarrow> NL \<in> set (payload (rx w))"
  shows "wp win_socket_read_request (reads (payload (rx w)) (w\<lparr>live := Blk_Buf # live w\<rparr>)) w"
proof -
  have "sock_usable (w\<lparr>live := Blk_Buf # live w\<rparr>)" using assms(2) by (simp add: sock_usable_def)
  moreover have "win_socket_read_request w =
      read_loop win_clean_request (replicate (BUFFER_SIZE + 1) NUL) 0 (w\<lparr>live := Blk_Buf # live w\<rparr>)"
    using assms(1) by (simp add: win_socket_read_request_def bindM_def callocM_def)
  ultimately show ?thesis
    using assms read_loop_segments [of "w\<lparr>live := Blk_Buf # live w\<rparr>" "[]" win_clean_request]
    by (simp add: wp_def)
qed

lemma win_resolve_run:
  assumes "oom w = []" and "root_dir (configs (w_args w)) \<noteq> []"
    and "length (root_dir (configs (w_args w))) < BUFFER_SIZE"
  shows "win_socket_resolve_selector sel w =
    (Ret (Some (win_resolved (root_dir (configs (w_args w))) sel)), w\<lparr>live := Blk_Path # live w\<rparr>)"
proof -
  let ?root = "root_dir (configs (w_args w))"
  have "length (win_resolved ?root sel) < length ?root + 1 + length sel + 4"
    by (auto simp: win_resolved_def)
  moreover have "(if last ?root = WIN_SEPARATOR
       then ?root @ (if sel \<noteq> [] \<and> hd sel = WIN_SEPARATOR then drop 1 sel else sel)
       else ?root @ WIN_SEPARATOR # (if sel \<noteq> [] \<and> hd sel = WIN_SEPARATOR then drop 1 sel else sel)) =
     win_resolved ?root sel" by (simp add: win_resolved_def)
  ultimately show ?thesis
    using assms
    by (simp only: win_socket_resolve_selector_def win_resolve_selector_def Let_def)
      (simp add: bindM_def callocM_def array_str_def sprintf_to_def free_codes)
qed

lemma win_ready_upd [simp]:
  "win_ready (w\<lparr>w_args := (w_args w)\<lparr>type_Request := k\<rparr>\<rparr>) = win_ready w"
  "win_ready (w\<lparr>out := s\<rparr>) = win_ready w" "win_ready (w\<lparr>rx := r\<rparr>) = win_ready w"
  "win_ready (w\<lparr>plog := l\<rparr>) = win_ready w" "win_ready (w\<lparr>file_open := b\<rparr>) = win_ready w"
  "win_ready (w\<lparr>file_lock := b\<rparr>) = win_ready w"
  by (simp_all add: win_ready_def send_ready_def sock_usable_def)

lemma ready_clean: "win_ready w \<Longrightarrow> wp (win_clean_request True True) (struck w) w"
  unfolding win_ready_def by (blast intro: clean_struck)

lemma error_struck:
  assumes "win_ready w"
  shows "wp (win_send_error_to_client path sel)
    (struck (w\<lparr>out := out w @ error_line sel (port_int (configs (w_args w)))\<rparr>)) w"
proof -
  let ?port = "port_int (configs (w_args w))"
  let ?w = "w\<lparr>out := out w @ error_line sel ?port\<rparr>"
  have clean: "wp (win_clean_request True True) (struck ?w) ?w" by (rule ready_clean) (simp add: assms)
  have fits: "response_fits (chr (CHR ''3'')) ?port"
    using assms by (intro real_port_fits) (auto simp: win_ready_def off_heap_def real_port_def)
  have reply: "response_text (chr (CHR ''3'')) f p h n = error_line f n" for f p h n
    by (simp add: response_text_def)
  have chr3: "chr (CHR ''3'') \<noteq> - 1" by simp
  have "?w\<lparr>live := live w\<rparr> = ?w" by simp
  then show ?thesis
    using assms fits clean unfolding win_send_error_to_client_def
    by (simp add: wp_bindM wp_getM wp_protocol_response chr3 wp_callocM wp_thenM reply [simplified]
        wp_socket_send_message wp_sendM sock_usable_def wp_whenM wp_freeM win_ready_def send_ready_def)
qed

text \<open>The rest of the handler once it has a path: answering it and cleaning up.\<close>

abbreviation win_finish :: "wenv \<Rightarrow> string \<Rightarrow> string \<Rightarrow> (world, unit) prog" where
  "win_finish env path sel \<equiv> thenM (win_socket_manage_files env path sel) (win_clean_request True True)"

lemma struck_answered:
  assumes "struck v r w'" and "threaded v = threaded w" and "closes v = closes w"
    and "out v = out w @ win_answer env (cwd w) (ip_buffer w) (port_int (configs (w_args w))) path sel"
    and "plog v = plog w @ (if win_file_type env (cwd w) path = FILES_IS_REG_FILE
       then [win_log_bytes w path (we_ptr env)] else [])"
  shows "win_answered env w path sel r w'"
  using assms by (simp add: struck_def win_answered_def)

lemma finish_error:
  assumes "win_ready w"
    and t: "win_file_type env (cwd w) path = FILES_NOT_EXIST \<or> win_file_type env (cwd w) path = FILES_NOT_PERMITTED"
  shows "wp (win_finish env path sel) (win_answered env w path sel) w"
proof -
  let ?w = "w\<lparr>w_args := (w_args w)\<lparr>type_Request := 1\<rparr>\<rparr>"
  let ?v = "?w\<lparr>out := out w @ error_line sel (port_int (configs (w_args w)))\<rparr>"
  have err: "wp (win_send_error_to_client path sel) (struck ?v) ?w"
    using error_struck [of ?w path sel] assms(1) by simp
  have fin: "win_answered env w path sel r w'" if "struck ?v r w'" for r :: "unit res" and w'
    by (rule struck_answered [OF that]) (use t in \<open>auto simp: threaded_def win_answer_def Let_def file_types\<close>)
  have "wp (win_send_error_to_client path sel) (seq_post f (seq_post g (win_answered env w path sel))) ?w"
    for f :: "unit \<Rightarrow> (world, unit) prog" and g :: "unit \<Rightarrow> (world, unit) prog"
    by (rule wp_mono [OF err]) (erule struck_seq_post, erule struck_seq_post, rule fin)
  then show ?thesis
    using t by (auto simp: win_socket_manage_files_def Let_def wp_thenM wp_bindM wp_set_type_Request)
qed

text \<open>The item type is never an error on Windows.\<close>

lemma win_code_nonneg: "\<not> win_getGopherCode path < 0" "win_getGopherCode path \<noteq> - 1"
  using win_code_range [of path] by auto

lemma finish_directory:
  assumes "win_ready w" and t: "win_file_type env (cwd w) path = FILES_IS_DIRECTORY"
    and "we_opendir env path = Some es"
  shows "wp (win_finish env path sel) (win_answered env w path sel) w"
proof -
  let ?port = "port_int (configs (w_args w))"
  let ?w = "w\<lparr>w_args := (w_args w)\<lparr>type_Request := 1\<rparr>\<rparr>"
  have ready: "send_ready ?w" "oom ?w = []" "0 \<le> ?port" "?port < 65536"
    using assms(1) by (auto simp: win_ready_def send_ready_def sock_usable_def off_heap_def real_port_def)
  define k where "k = listing_leak (\<lambda>_. []) path es"
  have k': "Blk_Args \<notin> set k"
    using win_list.listing_leak_blks [of path es] by (auto simp: k_def)
  have k: "print_directory (we_opendir env) (\<lambda>p. retM (win_getGopherCode p)) path socket_send_message ?port ?w =
      (Ret 0, ?w\<lparr>out := out w @ listing win_item path (ip_buffer w) ?port es, live := k @ live w\<rparr>)"
    using win_list.print_entries_lists [OF ready, of es path] win_code_nonneg assms(3)
    by (simp add: print_directory_def k_def)
  let ?z = "?w\<lparr>out := out w @ listing win_item path (ip_buffer w) ?port es, live := k @ live w\<rparr>"
  have "win_ready ?z"
    using assms(1) k' by (auto simp: win_ready_def off_heap_def real_port_def send_ready_def sock_usable_def)
  then have "wp (win_clean_request True True :: (world, unit) prog) (win_answered env w path sel) ?z"
    by (rule wp_mono [OF ready_clean])
      (rule struck_answered, assumption, use assms t in \<open>simp_all add: threaded_def win_answer_def Let_def file_types\<close>)
  then show ?thesis
    using t win_code_nonneg [of path]
    by (simp add: win_socket_manage_files_def Let_def file_types wp_thenM wp_bindM wp_set_type_Request
        wp_run [where m = "print_directory (we_opendir env) (\<lambda>p. retM (win_getGopherCode p)) path socket_send_message ?port", OF k [simplified]])
qed

lemma report_run:
  assumes "we_pipe env" and "pc_redirect (we_write env)"
    and "length (win_log_text w path n) < BUFFER_SIZE * 2"
    and "a = \<lparr>pa_ip = ip_client (w_args w), pa_dim = n, pa_path = path, pa_port = port_int (configs (w_args w))\<rparr>"
  shows "win_report env thread a v = (Ret (), v\<lparr>plog := plog v @ [win_log_bytes w path n]\<rparr>)"
proof -
  have msg: "pipe_text a @ [TAB] @ '' Port: '' @ show_int (pa_port a) @ '' '' @ [NL] = win_log_text w path n"
    by (simp add: assms(4) win_log_text_def)
  have "message_array (win_log_text w path n) = Ret (win_log_bytes w path n)"
    using assms(3) by (simp add: message_array_def sprintf_to_def win_log_bytes_def)
  moreover have "win_log_bytes w path n \<noteq> []"
    by (simp add: win_log_bytes_def win_log_text_def)
  ultimately show ?thesis
    unfolding win_report_def pipe_simple_write_to_pipe_def msg
    using assms(1,2) by (simp add: bindM_def log_message_def Let_def split_beta)
qed

lemma finish_regular:
  assumes "win_ready w" and t: "win_file_type env (cwd w) path = FILES_IS_REG_FILE"
    and "we_file env path = a_file c" and "c \<noteq> []" and "length c < 2 ^ 31"
    and "NUL \<in> set c \<or> length c mod PAGE \<noteq> 0" and "we_pipe env" and "pc_redirect (we_write env)"
    and "length (win_log_text w path (we_ptr env)) < BUFFER_SIZE * 2"
  shows "wp (win_finish env path sel) (win_answered env w path sel) w"
proof -
  let ?w = "w\<lparr>w_args := (w_args w)\<lparr>type_Request := 0\<rparr>\<rparr>"
  let ?v = "?w\<lparr>out := out w @ cstr c, file_open := False, file_lock := False\<rparr>"
  let ?z = "?v\<lparr>plog := plog w @ [win_log_bytes w path (we_ptr env)]\<rparr>"
  have "send_ready ?w" using assms(1) by (simp add: win_ready_def send_ready_def sock_usable_def)
  then have map: "windows_memory_mapping (we_ptr env) (we_file env path) ?w = (Ret (we_ptr env), ?v)"
    using windows_mapping_run [of "we_file env path" c ?w "we_ptr env"] assms(3-6) by (simp add: a_file_def)
  have report: "win_report env b \<lparr>pa_ip = ip_client (w_args w), pa_dim = we_ptr env, pa_path = path,
      pa_port = port_int (configs (w_args w))\<rparr> ?v = (Ret (), ?z)" for b
    using report_run [OF assms(7-9) refl, of b ?v] by simp
  have "win_ready ?z"
    using assms(1) by (auto simp: win_ready_def off_heap_def real_port_def send_ready_def sock_usable_def)
  then have "wp (win_clean_request True True :: (world, unit) prog) (win_answered env w path sel) ?z"
    by (rule wp_mono [OF ready_clean])
      (rule struck_answered, assumption, use assms t in \<open>simp_all add: threaded_def win_answer_def Let_def file_types a_file_def\<close>)
  then show ?thesis
    using t win_code_nonneg [of path] map report
    by (simp add: win_socket_manage_files_def Let_def file_types wp_fst_snd thenM_def bindM_def set_type_Request_def)
qed

lemma finish_unmanaged:
  assumes "win_ready w" and t: "win_file_type env (cwd w) path = FILES_IS_UNMANAGED_FILE"
  shows "wp (win_finish env path sel) (win_answered env w path sel) w"
proof -
  have "wp (win_clean_request True True :: (world, unit) prog) (win_answered env w path sel) w"
    by (rule wp_mono [OF ready_clean [OF assms(1)]])
      (rule struck_answered, assumption, use t in \<open>simp_all add: threaded_def win_answer_def Let_def file_types\<close>)
  then show ?thesis
    using t win_code_nonneg [of path]
    by (simp add: win_socket_manage_files_def Let_def file_types wp_thenM wp_bindM)
qed

lemma win_file_type_range: "win_file_type env d path \<in>
    {FILES_NOT_EXIST, FILES_IS_DIRECTORY, FILES_IS_REG_FILE, FILES_IS_UNMANAGED_FILE, FILES_NOT_PERMITTED}"
  by (simp add: win_file_type_def split: option.split)

lemma finish_answered:
  assumes "win_ready w" and "win_healthy env w path"
  shows "wp (win_finish env path sel) (win_answered env w path sel) w"
proof -
  let ?t = "win_file_type env (cwd w) path"
  consider "?t = FILES_NOT_EXIST \<or> ?t = FILES_NOT_PERMITTED" | "?t = FILES_IS_DIRECTORY"
    | "?t = FILES_IS_REG_FILE" | "?t = FILES_IS_UNMANAGED_FILE"
    using win_file_type_range [of env "cwd w" path] by blast
  then show ?thesis
  proof cases
    case 2
    then obtain es where "we_opendir env path = Some es" using assms(2) by (auto simp: win_healthy_def)
    from finish_directory [OF assms(1) 2 this] show ?thesis .
  next
    case 3
    then show ?thesis using assms by (auto simp: win_healthy_def Let_def intro: finish_regular)
  qed (use assms finish_error finish_unmanaged in blast)+
qed

text \<open>A request by itself, in the state in which the thread or the process starts it.\<close>

definition win_fresh :: "world \<Rightarrow> bool" where
  "win_fresh w \<longleftrightarrow> Blk_Args \<notin> set (live w) \<and> real_port w \<and> oom w = [] \<and> send_ready w \<and>
     No_Sigpipe \<in> obstacles w"

lemma win_answered_upd [simp]:
  "win_answered env (w\<lparr>live := l\<rparr>) = win_answered env w" "win_answered env (w\<lparr>rx := r\<rparr>) = win_answered env w"
  by (intro ext, simp add: win_answered_def threaded_def win_log_bytes_def win_log_text_def)+

text \<open>Claim C14. On Windows a complete request on which no call fails, of a client that takes what it is
  sent, is answered like this: a menu for a directory, a regular file up to its first NUL byte, an error line for
  anything missing or forbidden, nothing for any other kind of file. For a regular file, and only then,
  one report is written, with the size of a pointer in place of the file's. \<open>win_healthy\<close> says what a
  regular file needs: its calls succeed, it is not empty and shorter than 2 GiB, it has a NUL byte or a
  size that is no multiple of the page size, the sending thread is created and has sent within the 0 ms that the
  caller waits for it, and the report fits its array. In thread mode the connection is then closed, in
  the request's own process it stays open, and in both the argument struct is freed, which is not on
  the heap: undefined behaviour.\<close>

theorem win_handle_request_answers:
  assumes "win_fresh w" and "list_all segment (rx w)"
    and "payload (rx w) = sel @ CR # NL # rest" and "length (payload (rx w)) < BUFFER_SIZE"
    and "NL \<notin> set sel" and "nul_free sel"
    and "root_dir (configs (w_args w)) \<noteq> []" and "length (root_dir (configs (w_args w))) < BUFFER_SIZE"
    and "win_healthy env w (win_resolved (root_dir (configs (w_args w))) sel)"
  shows "wp (win_handle_request env) (win_answered env w (win_resolved (root_dir (configs (w_args w))) sel) sel) w"
proof -
  let ?path = "win_resolved (root_dir (configs (w_args w))) sel"
  let ?w1 = "\<lambda>r. w\<lparr>live := Blk_Buf # live w, rx := r\<rparr>"
  let ?w2 = "\<lambda>r. ?w1 r\<lparr>live := Blk_Path # Blk_Buf # live w\<rparr>"
  have "wp win_socket_read_request (reads (payload (rx w)) (w\<lparr>live := Blk_Buf # live w\<rparr>)) w"
    using assms by (intro win_read_run) (auto simp: win_fresh_def send_ready_def)
  moreover have "request_of (payload (rx w)) = Ret sel" using assms by (simp add: request_of_line)
  ultimately obtain b r where read: "win_socket_read_request w = (Ret (0, b), ?w1 r)" and b: "cstr b = sel"
    by (cases "win_socket_read_request w") (auto simp: wp_def reads_def split: res.splits)
  have resolve: "win_socket_resolve_selector sel (?w1 r) = (Ret (Some ?path), ?w2 r)"
    using win_resolve_run [of "?w1 r" sel] assms by (simp add: win_fresh_def)
  have "win_ready (?w2 r)"
    using assms(1) by (auto simp: win_fresh_def win_ready_def off_heap_def real_port_def send_ready_def sock_usable_def)
  moreover have "win_healthy env (?w2 r) ?path"
    using assms(9) by (simp add: win_healthy_def win_log_text_def)
  ultimately have "wp (win_finish env ?path sel) (win_answered env (?w2 r) ?path sel) (?w2 r)"
    by (rule finish_answered)
  then show ?thesis
    unfolding win_handle_request_def
    by (simp add: wp_bindM [of win_socket_read_request] wp_run [where m = win_socket_read_request, OF read] b
        wp_bindM [of "win_socket_resolve_selector sel"] wp_run [where m = "win_socket_resolve_selector sel", OF resolve])
qed

text \<open>A server of one directory with one file.\<close>

definition a_wenv :: wenv where
  "a_wenv = \<lparr>we_stat = (\<lambda>p. if p = ''/srv'' @ [BACKSLASH] @ ''a.gif'' then Some S_IFREG else None),
     we_fullpath = Some, we_opendir = (\<lambda>_. None), we_file = (\<lambda>_. a_file (''GIF'' @ [NUL] @ ''89a'')), we_ptr = 8,
     we_run = \<lparr>pc_create_pipe = True, pc_redirect = True, pc_create_process = True, pc_duplicate = True, pc_restore = True\<rparr>,
     we_write = \<lparr>pc_create_pipe = True, pc_redirect = True, pc_create_process = True, pc_duplicate = True, pc_restore = True\<rparr>,
     we_pipe = True, we_event = True\<rparr>"

definition a_wworld :: "rx_event list \<Rightarrow> world" where
  "a_wworld evs = (client_world evs)\<lparr>live := [], obstacles := {No_Sigpipe}\<rparr>"

theorem win_handle_request_answers_witness:
  "fst (win_handle_request a_wenv (a_wworld [Rx_Data (''a.gif'' @ [CR, NL])])) = UB Double_Free \<and>
   out (snd (win_handle_request a_wenv (a_wworld [Rx_Data (''a.gif'' @ [CR, NL])]))) = ''GIF''"
proof -
  let ?w = "a_wworld [Rx_Data (''a.gif'' @ [CR, NL])]"
  let ?p = "''/srv'' @ [BACKSLASH] @ ''a.gif''"
  have path: "win_resolved ''/srv'' ''a.gif'' = ?p"
    by (simp add: win_resolved_def WIN_SEPARATOR_def)
  have "win_basename ?p = ''a.gif''"
    using win_path_last(1) [of "''/srv''" BACKSLASH "''a.gif''"] by (simp add: win_sep_def drive_def)
  then have "win_basename ?p \<noteq> log_file_name" by (simp add: log_file_name_def)
  then have t: "win_file_type a_wenv d ?p = FILES_IS_REG_FILE" for d
    by (simp add: win_file_type_def a_wenv_def win_blackListFile_def formats)
  have "\<exists>c. we_file a_wenv ?p = a_file c \<and> c \<noteq> [] \<and> length c < 2 ^ 31 \<and> (NUL \<in> set c \<or> length c mod PAGE \<noteq> 0)"
    by (intro exI [of _ "''GIF'' @ [NUL] @ ''89a''"]) (simp add: a_wenv_def)
  moreover have "length (show_int 8) \<le> 2" "length (show_int 70) \<le> 2"
    using length_show_int_iff [of 8 0] length_show_int_iff [of 70 0] by simp_all
  then have "length (win_log_text ?w ?p (we_ptr a_wenv)) < BUFFER_SIZE * 2"
    by (simp add: a_wenv_def a_wworld_def win_log_text_def pipe_text_def port_int_def BUFFER_SIZE_def)
  moreover have "we_pipe a_wenv" "pc_redirect (we_write a_wenv)" by (simp_all add: a_wenv_def)
  ultimately have "win_healthy a_wenv ?w ?p"
    unfolding win_healthy_def Let_def t by (simp add: file_types)
  then have "wp (win_handle_request a_wenv) (win_answered a_wenv ?w ?p ''a.gif'') ?w"
    using win_handle_request_answers [of ?w "''a.gif''" "[]" a_wenv] path
    by (simp add: a_wworld_def win_fresh_def real_port_def port_int_def BUFFER_SIZE_def send_ready_def sock_usable_def client_world_def)
  moreover have "win_answer a_wenv (cwd ?w) h n ?p s = ''GIF''" for h n s
    unfolding win_answer_def t Let_def by (simp add: file_types a_wenv_def a_file_def cstr_def)
  moreover have "out ?w = []" by (simp add: a_wworld_def)
  ultimately show ?thesis by (simp only: wp_fst_snd win_answered_def append_Nil)
qed


text \<open>The log file in the parent of the working directory is not served under its exact name. The
  name is compared letter by letter, as a file system of Windows does not do.\<close>

theorem win_log_file_not_permitted:
  assumes "we_stat env (d @ BACKSLASH # log_file_name) = Some m" and "s_format m = S_IFREG"
    and "we_fullpath env wd = Some (p @ BACKSLASH # q)"
    and "we_fullpath env (d @ BACKSLASH # log_file_name) = Some (p @ BACKSLASH # log_file_name)"
    and "2 \<le> length d" and "\<not> win_sep (last d)" and "drop (drive d) d \<noteq> []"
    and "2 \<le> length p" and "\<not> win_sep (last p)" and "drop (drive p) p \<noteq> []"
    and "q \<noteq> []" and "list_all (\<lambda>x. \<not> win_sep x) q"
  shows "win_file_type env wd (d @ BACKSLASH # log_file_name) = FILES_NOT_PERMITTED"
proof -
  have sep: "win_sep BACKSLASH" "list_all (\<lambda>x. \<not> win_sep x) log_file_name" "log_file_name \<noteq> []"
    by (simp_all add: win_sep_def log_file_name_def)
  have "m AND S_IFDIR = 0 \<and> m AND S_IFREG \<noteq> 0"
    using format_tests [of m] assms(2) by (simp add: valid_format_def formats)
  then show ?thesis
    using assms sep by (simp add: win_file_type_def win_blackListFile_def win_path_last)
qed

theorem win_log_file_not_permitted_witness:
  "\<exists>env. win_file_type env ''C:/run/build'' (''C:/run'' @ BACKSLASH # log_file_name) = FILES_NOT_PERMITTED"
proof -
  let ?env = "a_wenv\<lparr>we_stat := \<lambda>_. Some S_IFREG, we_fullpath := (\<lambda>s. if s = ''C:/run/build''
     then Some (''C:/run'' @ BACKSLASH # ''build'') else Some s)\<rparr>"
  have "win_file_type ?env ''C:/run/build'' (''C:/run'' @ BACKSLASH # log_file_name) = FILES_NOT_PERMITTED"
    by (rule win_log_file_not_permitted [where m = S_IFREG and p = "''C:/run''" and q = "''build''"])
      (simp_all add: s_format_def formats win_sep_def drive_def log_file_name_def)
  then show ?thesis by blast
qed

section \<open>The program in thread mode\<close>

text \<open>A result of a request that is not waiting ends the process of its thread.\<close>

lemma request_fatal:
  assumes "Blk_Args \<notin> set (live w)" and "real_port w" and "No_Sigpipe \<in> obstacles w"
    and "fst (win_handle_request env w) \<noteq> Blocked"
  shows "\<exists>e. fatal (fst (win_handle_request env w)) = Some e \<and> ((\<exists>u. e = UB u) \<or> e = Exit 3)"
  using win_request_ends [OF assms(1-3), of env] assms(4) by (auto simp: wp_fst_snd)

text \<open>Claim C31. The program without options on a valid configuration file in thread mode and with a
  socket that can be set up, up to the first Ctrl-C at a pause or error of \<open>select\<close>: it has started a thread for every round whose thread could be created, in order,
  and the struct that they share holds the port and root directory of the file. It goes on in this way for
  as long as no request ends, whatever requests wait for their clients. The first request that comes to an end, with any
  client and any files, ends the whole server, by undefined behaviour or by the assertion on the file
  size: nothing is accepted or answered after that.\<close>

theorem main_windows_serves:
  assumes "\<forall>n. mem n" and "list_all wf_opt opts" and "each_once opts"
    and "{Opt_Port p, Opt_Mode M_THREAD, Opt_Root d, Opt_Ip h} \<subseteq> set opts" and "length d < BUFFER_SIZE"
    and "length dir < BUFFER_SIZE" and "wnet_ok (wl_net fin)" and "wv_threads s = []"
    and "wl_events fin = es @ tail" and "\<not> win_ends False es"
    and "tail = [] \<or> (\<exists>env w rest. tail = W_Thread_Ends (fst (win_handle_request env w)) # rest \<and>
      fst (win_handle_request env w) \<noteq> Blocked \<and>
      Blk_Args \<notin> set (live w) \<and> real_port w \<and> No_Sigpipe \<in> obstacles w)"
  shows "\<exists>r s'. main_windows True mem (Some (render opts)) [] (Some dir) True fin [] s = (r, s') \<and>
    (if tail = [] then r = Blocked else (\<exists>e. r = UB e) \<or> r = Exit 3) \<and>
    wv_threads s' = map client_of (filter wr_spawn (win_rounds False es)) \<and>
    port_number (configs (wv_args s')) = word_of_int p \<and> root_dir (configs (wv_args s')) = d \<and>
    wv_ip s' = h \<and> wv_cwd s' = dir"
proof -
  note run = main_windows_runs [OF assms(1-8), unfolded assms(9) win_append [OF assms(10)]]
  show ?thesis
  proof (cases "tail = []")
    case True
    then show ?thesis using run by simp
  next
    case False
    then obtain env w rest where t: "tail = W_Thread_Ends (fst (win_handle_request env w)) # rest"
      and w: "Blk_Args \<notin> set (live w)" "real_port w" "No_Sigpipe \<in> obstacles w"
        "fst (win_handle_request env w) \<noteq> Blocked"
      using assms(11) by blast
    obtain e where "fatal (fst (win_handle_request env w)) = Some e" and e: "(\<exists>u. e = UB u) \<or> e = Exit 3"
      using request_fatal [OF w] by blast
    then show ?thesis using run by (simp add: t) blast
  qed
qed

theorem main_windows_serves_witness:
  "\<exists>r s'. main_windows True (\<lambda>_. True) (Some (render sample_opts)) [] (Some ''C:/run'') True
     (a_wlife [W_Timeout, W_Ready (a_wround (Some 4)), W_Ready (a_wround None),
        W_Thread_Ends (fst (win_handle_request a_wenv (a_wworld [Rx_Err])))]) [] a_wserver = (r, s') \<and>
     ((\<exists>e. r = UB e) \<or> r = Exit 3) \<and> wv_threads s' = [4, - 1] \<and> root_dir (configs (wv_args s')) = ''.''"
proof -
  let ?es = "[W_Timeout, W_Ready (a_wround (Some 4)), W_Ready (a_wround None)]"
  let ?w = "a_wworld [Rx_Err]"
  let ?tail = "[W_Thread_Ends (fst (win_handle_request a_wenv ?w))]"
  have w: "Blk_Args \<notin> set (live ?w)" "real_port ?w" "No_Sigpipe \<in> obstacles ?w"
    by (simp_all add: a_wworld_def real_port_def port_int_def)
  have "fst (win_handle_request a_wenv ?w) \<noteq> Blocked"
    using win_request_ends [OF w, of a_wenv] by (auto simp: wp_fst_snd a_wworld_def)
  with w have "?tail = [] \<or> (\<exists>env w rest. ?tail = W_Thread_Ends (fst (win_handle_request env w)) # rest \<and>
      fst (win_handle_request env w) \<noteq> Blocked \<and> Blk_Args \<notin> set (live w) \<and> real_port w \<and> No_Sigpipe \<in> obstacles w)"
    by blast
  then show ?thesis
    using main_windows_serves [of "\<lambda>_. True" sample_opts 7080 "''.''" "''g.org''" "''C:/run''"
      "a_wlife (?es @ ?tail)" a_wserver ?es ?tail]
    by (simp add: sample_opts_def plain_def each_once_def once_def BUFFER_SIZE_def a_wlife_def wnet_ok_def
        a_wround_def client_of_def INVALID_SOCKET_def a_wserver_def) blast
qed

end
