(* ===== verification/WinChild.thy ===== *)
theory WinChild
  imports WinSocket
begin

text \<open>
  Functions of the Windows sources that nothing calls: \<open>GetSocket\<close> and \<open>DoChild\<close> of
  \<open>main_HandleRequest.c\<close>, an older way to hand a socket to the process of a request, and
  \<open>run_concurrency\<close> of \<open>windows_socket.c\<close>, whose body the accept loop repeats.
\<close>

section \<open>Handing over a socket through a mapped file\<close>

definition MAX_PATH :: nat where "MAX_PATH = 260"

datatype handle = H_Parent | H_Child | H_Map

record wchild =
  ch_handles :: "handle list"   \<comment> \<open>open handles\<close>
  ch_socks :: "int list"        \<comment> \<open>open sockets\<close>
  ch_out :: string              \<comment> \<open>what was printed of the received data\<close>

definition openH :: "handle \<Rightarrow> (wchild, unit) prog" where
  "openH h = modM (\<lambda>s. s\<lparr>ch_handles := h # ch_handles s\<rparr>)"

definition closeH :: "handle \<Rightarrow> (wchild, unit) prog" where
  "closeH h = modM (\<lambda>s. s\<lparr>ch_handles := remove1 h (ch_handles s)\<rparr>)"

text \<open>The results of the calls: opening the two events, waiting (a timeout is not a failure), opening
  the mapping, mapping it, and the socket made of its contents.\<close>

record gs_calls =
  gs_parent :: bool
  gs_child :: bool
  gs_wait :: bool
  gs_map :: bool
  gs_view :: bool
  gs_sock :: int

definition GetSocket :: "gs_calls \<Rightarrow> string \<Rightarrow> (wchild, int) prog" where
  "GetSocket c szFileMappingObj =
     bindM (stopM (sprintf_to MAX_PATH (szFileMappingObj @ ''parent''))) (\<lambda>_.
     bindM (stopM (sprintf_to MAX_PATH (szFileMappingObj @ ''child''))) (\<lambda>_.
     if \<not> gs_parent c then retM INVALID_SOCKET
     else thenM (openH H_Parent)
      (if \<not> gs_child c then thenM (closeH H_Parent) (retM INVALID_SOCKET)
       else thenM (openH H_Child)
        (if \<not> gs_wait c then stopM (Exit 1)
         else bindM (if gs_map c then thenM (openH H_Map)
                       (if gs_view c then
                          thenM (whenM (gs_sock c \<noteq> INVALID_SOCKET) (modM (\<lambda>s. s\<lparr>ch_socks := gs_sock c # ch_socks s\<rparr>)))
                          (retM (gs_sock c))
                        else retM INVALID_SOCKET)
                     else retM INVALID_SOCKET) (\<lambda>sockDuplicated.
              thenM (closeH H_Parent)
              (thenM (closeH H_Child)
              (thenM (whenM (gs_map c) (closeH H_Map))
              (retM sockDuplicated))))))))"

text \<open>The result of one \<open>WSARecv\<close> of at most \<open>MAX_PATH\<close> bytes.\<close>

datatype wsa_recv = WR_Got string | WR_Error

fun DoChild_loop :: "wsa_recv list \<Rightarrow> (wchild, unit) prog" where
  "DoChild_loop [] = stopM Blocked"
| "DoChild_loop (WR_Error # es) = retM ()"
| "DoChild_loop (WR_Got bs # es) =
     (if bs = [] then retM ()
      else if MAX_PATH < length bs then stopM (UB Out_Of_Bounds)
      else thenM (modM (\<lambda>s. s\<lparr>ch_out := ch_out s @ cstr bs\<rparr>)) (DoChild_loop es))"

text \<open>The socket is forgotten at the end, not closed.\<close>

definition DoChild :: "gs_calls \<Rightarrow> string \<Rightarrow> wsa_recv list \<Rightarrow> (wchild, unit) prog" where
  "DoChild c pszChildFileMappingObj es =
     bindM (GetSocket c pszChildFileMappingObj) (\<lambda>sockDuplicated.
     if sockDuplicated \<noteq> INVALID_SOCKET then DoChild_loop es else retM ())"

text \<open>\<open>GetSocket\<close> in every case: a name of 254 characters or more overflows the array for the event's
  name; when it returns, it has closed every handle it has opened; it ends the process only when
  the wait fails, and gives a socket exactly when every call has succeeded.\<close>

theorem GetSocket_cases:
  "wp (GetSocket c name) (\<lambda>r t.
     if 254 \<le> length name then r = UB Out_Of_Bounds
     else if gs_parent c \<and> gs_child c \<and> \<not> gs_wait c then r = Exit 1
     else ch_handles t = ch_handles s \<and>
       r = Ret (if gs_parent c \<and> gs_child c \<and> gs_map c \<and> gs_view c then gs_sock c else INVALID_SOCKET)) s"
  by (simp add: GetSocket_def openH_def closeH_def sprintf_to_def MAX_PATH_def wp_rules)

lemma DoChild_loop_prints:
  "list_all (\<lambda>b. b \<noteq> [] \<and> length b \<le> MAX_PATH) bss \<Longrightarrow>
    DoChild_loop (map WR_Got bss @ WR_Got [] # es) s = (Ret (), s\<lparr>ch_out := ch_out s @ List.concat (map cstr bss)\<rparr>)"
  by (induction bss arbitrary: s) (auto simp: thenM_def bindM_def)

text \<open>The child prints what it receives until the client closes, up to the first NUL of each piece,
  and leaves the socket open.\<close>

theorem DoChild_prints:
  assumes "length name < 254" and "gs_parent c" and "gs_child c" and "gs_wait c" and "gs_map c" and "gs_view c"
    and "gs_sock c \<noteq> INVALID_SOCKET" and "list_all (\<lambda>b. b \<noteq> [] \<and> length b \<le> MAX_PATH) bss"
  shows "DoChild c name (map WR_Got bss @ WR_Got [] # es) s =
    (Ret (), s\<lparr>ch_out := ch_out s @ List.concat (map cstr bss), ch_socks := gs_sock c # ch_socks s\<rparr>)"
proof -
  have "GetSocket c name s = (Ret (gs_sock c), s\<lparr>ch_socks := gs_sock c # ch_socks s\<rparr>)"
    using assms(1-7)
    by (simp add: GetSocket_def openH_def closeH_def sprintf_to_def MAX_PATH_def thenM_def bindM_def whenM_def)
  then show ?thesis
    using assms(7) DoChild_loop_prints [OF assms(8), of es "s\<lparr>ch_socks := gs_sock c # ch_socks s\<rparr>"]
    by (simp add: DoChild_def bindM_def)
qed

theorem DoChild_prints_witness:
  "\<exists>c. ch_out (snd (DoChild c ''obj'' [WR_Got ''hello'', WR_Got []] \<lparr>ch_handles = [], ch_socks = [], ch_out = []\<rparr>)) = ''hello''"
  using DoChild_prints [of "''obj''" "\<lparr>gs_parent = True, gs_child = True, gs_wait = True, gs_map = True, gs_view = True, gs_sock = 4\<rparr>"
      "[''hello'']" "[]" "\<lparr>ch_handles = [], ch_socks = [], ch_out = []\<rparr>"]
  by (intro exI [of _ "\<lparr>gs_parent = True, gs_child = True, gs_wait = True, gs_map = True, gs_view = True, gs_sock = 4\<rparr>"])
    (simp add: INVALID_SOCKET_def MAX_PATH_def cstr_def)

section \<open>Starting a handler\<close>

text \<open>In thread mode the new thread is given the address of the parameter \<open>args\<close> and reads a whole
  struct there; in process mode nothing is done.\<close>

definition win_run_concurrency :: "wround \<Rightarrow> int \<Rightarrow> (wserver, unit) prog" where
  "win_run_concurrency rd client =
     thenM (modM (\<lambda>s. s\<lparr>wv_args := (wv_args s)\<lparr>ip_client := wr_addr rd, fd := client\<rparr>\<rparr>))
     (bindM (getM (\<lambda>s. mode_concurrency (configs (wv_args s)))) (\<lambda>mode.
      if mode = M_THREAD then whenM (wr_spawn rd) (stopM (UB Out_Of_Bounds))
      else if mode = M_PROCESS then retM ()
      else stopM (Exit (- 1))))"

text \<open>So it never starts a handler that could serve its client, and never closes the client's socket.\<close>

theorem win_run_concurrency_serves_nobody:
  "wp (win_run_concurrency rd client) (\<lambda>r t. wv_threads t = wv_threads s \<and> wv_children t = wv_children s \<and>
     wv_socks t = wv_socks s \<and> (mode_concurrency (configs (wv_args s)) = M_THREAD \<and> wr_spawn rd \<longrightarrow> is_ub r)) s"
  by (simp add: win_run_concurrency_def wp_rules)

end
