(* ===== verification/Spec2Isabelle.thy ===== *)
theory Spec2Isabelle
  imports ConfigFile Server LogMulti Variants WinRequest WinChild "HOL-Library.Multiset"
begin

text \<open>
  A verification of the Gopher server: the C sources of the cross-platform server, for Linux in full
  and for Windows where its code differs.

  \<^bold>\<open>The program.\<close> \<open>main.c\<close> reads the configuration file and the command line
  (\<open>general/lib/io/config_file.c\<close>), starts a log process (\<open>linux/lib/pipe/linux_pipe.c\<close>) and then
  accepts connections for ever (\<open>linux/lib/socket/linux_socket.c\<close>). Every connection is served by
  \<open>handle_request\<close> in a thread or in a forked process: it reads a selector
  (\<open>general/lib/socket/socket.c\<close>), makes a path of it (\<open>general/lib/gopher/protocol.c\<close>), classifies
  the path (\<open>general/lib/io/files_interaction.c\<close>, \<open>linux/lib/protocol/linux_protocol.c\<close>) and sends a
  menu, an error line, or the mapped file (\<open>linux/lib/memory_mapping\<close>); a file that was sent is
  reported to the log process. \<open>SIGHUP\<close> makes the accept loop return, and \<open>main\<close> reads the file again.

  \<^bold>\<open>Theories and sources.\<close>
  \<^item> \<open>CModel\<close>, \<open>CLib\<close>: the prelude. How a C call ends (\<open>'a res\<close>: it returns, exits, ends the
    thread, is killed, blocks, or is undefined behaviour), programs over a state with their
    weakest preconditions (\<open>wp\<close>, the collection \<open>wp_rules\<close>), C strings and arrays, the functions of
    the C library, and \<open>step_system\<close>, the contract of a transition system with an invariant.
  \<^item> \<open>World\<close>: \<open>general/include/definitions.h\<close> (constants, \<open>Configs\<close>, \<open>ThreadArgs\<close>), the operating
    system as a parameter (\<open>os\<close>), the state of one request (\<open>world\<close>) and one program per system call.
  \<^item> \<open>Utils\<close>: \<open>general/lib/utils/utils.c\<close>. \<open>ConfigFile\<close>: \<open>config_file.c\<close>.
  \<^item> \<open>GopherCode\<close>: the item type of a file, \<open>linux_protocol.c\<close> and \<open>windows_protocol.c\<close>.
    \<open>FilesInteraction\<close>: \<open>files_interaction.c\<close> and both versions of \<open>blackListFile\<close>.
  \<^item> \<open>Protocol\<close>: \<open>protocol.c\<close>. \<open>Socket\<close>: \<open>socket.c\<close>. \<open>MemoryMapping\<close>: \<open>linux_memory_mapping.c\<close> and
    the senders. \<open>Request\<close>: \<open>handle_request\<close> and \<open>socket_manage_files\<close>.
  \<^item> \<open>LogPipe\<close>: \<open>linux_pipe.c\<close>, the log process and the handlers as two step relations over one state.
    \<open>LogMulti\<close>: the same with one log process per message.
  \<^item> \<open>Server\<close>: the accept loop, the start of handlers, \<open>linux_signals.c\<close>, and \<open>main.c\<close>.
  \<^item> \<open>WinHandler\<close>, \<open>WinSocket\<close>: \<open>main_HandleRequest.c\<close>, \<open>main_LogProcess.c\<close>, \<open>windows_pipe.c\<close>;
    \<open>windows_socket.c\<close>, \<open>windows_memory_mapping.c\<close>, \<open>windows_events.c\<close>. \<open>WinRequest\<close>: one request on
    Windows, \<open>handle_request\<close> with the shared sources as they are compiled there.
  \<^item> \<open>Variants\<close>, \<open>WinChild\<close>: functions that the sources keep but nothing calls, in \<open>socket.c\<close>, in
    \<open>main_HandleRequest.c\<close> and in \<open>windows_socket.c\<close>, and three small helpers of Linux.

  \<^bold>\<open>State and environment.\<close> A request's state is \<open>world\<close>: its arguments, the socket (what is
  still to be received, what was delivered, how often it was closed), the live heap blocks named
  after their pointers, the open file, the locks, and the \<open>obstacles\<close>: what can make one of its calls
  wait for ever. No call of the code has a time limit, so a client that neither sends nor closes, or that
  does not read, a lock on the file, a log process that gives no token, a log mutex that stays
  locked and a log pipe that stays full are obstacles; a call that meets one is \<open>Blocked\<close>. The blocks in \<open>core\<close> are the five that the
  handler frees itself; \<open>left_over\<close> says which others a request leaves allocated. The accept loop's state is \<open>server\<close>, that of the
  log protocol \<open>logsys\<close>. Failures are explicit: lists of results for allocations, \<open>recv\<close>
  and \<open>send\<close>, the record \<open>os\<close> for the file system, lists of events for \<open>select\<close> and \<open>accept\<close>. An
  exhausted list of \<open>select\<close> events is a call that waits for ever (\<open>Blocked\<close>); an exhausted list of
  receive events is a client that has closed its side, or a silent one when that is an obstacle; an
  exhausted list of send events is a network that takes everything, unless the client has stalled. On
  Windows the threads share the process with the loop, so the end of a thread is an event of the loop.
  Paths are walked from the working directory when they are relative (\<open>leads\<close>). All bytes and
  sizes are those of the code: the buffer of 2048, blocks for lines, \<open>int\<close> and \<open>unsigned\<close> of 32 bits.

  \<^bold>\<open>What is shown.\<close>
  \<^item> The whole program, in this theory: \<open>program_answers\<close> goes from the start of \<open>main\<close> to the bytes that
    a client receives, and \<open>deliveries_logged\<close> joins the request handlers to the log process.
    \<open>main_serves\<close>: with a valid configuration it binds the configured port and starts exactly the due
    handlers. \<open>accept_loop_refines\<close> gives the loop as functions of the events;
    \<open>every_connection_ends\<close> joins it to the request handler, with every way to end and every reason
    to wait for ever; \<open>sighup_reloads\<close> and
    \<open>sighup_bad_file_ends_server\<close> are the two outcomes of a reload.
  \<^item> One request (\<open>handle_request_refines\<close>): the refinement of the specification \<open>answer\<close>, and
    \<open>handle_request_safe\<close>, which holds for every client, allocator, network and file system. Silent and
    stalled clients: \<open>silent_client_waits\<close>, \<open>stalled_client_blocks_transfers\<close>.
  \<^item> Its parts: selectors and confinement to the root directory, menus and their round trip, the
    reader on every segmentation of the stream, the classification of files, transfers.
  \<^item> The configuration: round trip, rejection, what every accepted file guarantees.
  \<^item> The log protocol: mutual exclusion, order, and that it comes to rest with every message logged.
  \<^item> On Windows: what a request is answered (\<open>win_handle_request_answers\<close>), that none ends as it should
    (\<open>win_no_request_ends\<close>), so that the whole program in thread mode serves until the first request ends
    and ends with it (\<open>main_windows_serves\<close>), the accept loop and its reload by Ctrl-C, the threads that share one struct, the command
    line of a request's process and its round trip, the report to the log process.
  \<^item> Where the code does not do what it means to, the theorem says exactly when: descriptors that
    leak, a mutex that stays locked, blocks that overflow, selectors that leave the root.

  \<^bold>\<open>Interfaces.\<close> \<open>key_order\<close> and \<open>search_table\<close>: a comparison and a table that is sorted by it, for
  the binary search (interpreted by \<open>strcmp\<close> and the three tables of item types). \<open>tokenizer\<close>: the
  two versions of \<open>strtok_r\<close>. \<open>line_sender\<close>: the callback of \<open>print_directory\<close> (interpreted by
  \<open>socket_send_message\<close>). \<open>item_coder\<close>: the item type of a file (interpreted by \<open>getGopherCode\<close> of
  Linux and of Windows). \<open>lister\<close>, which extends both: the listing of a directory, proved once and
  interpreted for both platforms. \<open>step_system\<close>: an invariant (interpreted by the log
  protocol and by the threads that share a struct).

  \<^bold>\<open>Termination and fuel.\<close> No definition has fuel. Loops over received or sent bytes end because
  each turn uses up an event or sends a byte (\<open>read_loop\<close>, \<open>socket_drain_tcp\<close>, \<open>l_send_loop\<close>). The one
  loop that may not end, \<open>SendFile_loop\<close>, is a partial function with \<open>None\<close> for not returning.
  The steps of the log protocol are bounded by \<open>work\<close>.

  \<^bold>\<open>Not modelled.\<close> Diagnostics (\<open>log_ut\<close>, \<open>vlog_ut\<close>, \<open>perror\<close>, \<open>windows_perror\<close>), on which
  nothing depends. Contents of other processes' memory. \<open>create_shared_memory\<close> and
  \<open>__cd\<close>, which pass their arguments to one system call and are not called. Empty functions and files,
  and the code that is commented out.
\<close>

section \<open>From the connection to the answer\<close>

text \<open>What a started handler runs: the request handler, in a thread or in a child process.\<close>

definition handler_run :: "os \<Rightarrow> ThreadArgs \<Rightarrow> (world, unit) prog" where
  "handler_run env args =
     (if mode_concurrency (configs args) = M_THREAD then handle_request_thread env else forked_child env)"

text \<open>A client that sends a selector as one line, in pieces of any size, and takes what it is sent, and
  a process in which nothing stands in the handler's way: the transfer mutex, the file and the log are free.\<close>

definition polite :: "string \<Rightarrow> world \<Rightarrow> bool" where
  "polite sel w \<longleftrightarrow> oom w = [] \<and> tx w = [] \<and> \<not> p_mutex w \<and> plog w = [] \<and> list_all segment (rx w) \<and>
     (\<exists>rest. payload (rx w) = sel @ CR # NL # rest) \<and> length (payload (rx w)) < BUFFER_SIZE \<and>
     NL \<notin> set sel \<and> nul_free sel \<and> obstacles w \<subseteq> {Client_Silent, No_Sigpipe}"

lemma handler_answers:
  assumes "polite sel w" and "0 \<le> fd args" and "type_Request args = 0"
    and "configs args = c" and "hostname c = Host_Ip_Buffer" and "0 \<le> port_int c" and "port_int c < 65536"
    and "root_dir c = d" and "d \<noteq> []" and "length d < BUFFER_SIZE" and "healthy env (sv_cwd s) (resolved d sel)"
  shows "wp (handler_run env args)
    (answered env (handler_world s args w) (resolved d sel) sel) (handler_world s args w)"
proof -
  let ?w = "handler_world s args w"
  have "holds {Blk_Ip, Blk_Args} ?w" by (simp add: handler_world_def owns_def core_def insert_commute)
  moreover have "fresh ?w"
    using assms(1-7) by (auto simp: fresh_def handler_world_def polite_def send_ready_def sock_usable_def real_port_def)
  ultimately have run: "wp (handle_request env) (answered env ?w (resolved d sel) sel) ?w"
    using assms handle_request_answered [of ?w sel _ env]
    by (auto simp: handler_world_def polite_def)
  then have "wp (forked_child env) (answered env ?w (resolved d sel) sel) ?w"
    unfolding forked_child_def thenM_def
    by (rule wp_seqI) (auto simp: answered_def Let_def split: if_splits)
  with run show ?thesis by (simp add: handler_run_def handle_request_thread_def)
qed

text \<open>The rounds of a loop without signals: each that has a connection and what it needs starts its handler.\<close>

lemma hup_hup [simp]: "hup a (hup b c) = hup (a \<or> b) c"
  by (simp add: hup_def)

lemma round_is_served:
  assumes "list_all no_signal es" and "Ev_Ready rd \<in> set es" and "rd_accept rd = Accepted n name" and "spawns c rd"
  shows "\<exists>b. \<lparr>fd = int n, configs = hup b c, ip_client = name, type_Request = 0\<rparr> \<in> set (served c es)"
  using assms
proof (induction es arbitrary: c)
  case (Cons e es)
  show ?case
  proof (cases "e = Ev_Ready rd")
    case True
    then show ?thesis using Cons.prems(3,4)
      by (intro exI [of _ "rd_hup rd"]) (simp add: Let_def started_by_def)
  next
    case False
    then have "Ev_Ready rd \<in> set es" "list_all no_signal es" using Cons.prems by auto
    note step = Cons.IH [OF this(2,1) Cons.prems(3)]
    show ?thesis
    proof (cases e)
      case (Ev_Signal k)
      then show ?thesis using Cons.prems(1) by (simp add: no_signal_def)
    next
      case Ev_Select_Err
      then show ?thesis using step Cons.prems(4) by simp
    next
      case (Ev_Ready rd')
      have "spawns (hup (rd_hup rd') c) rd" using Cons.prems(4) by simp
      then show ?thesis using step Ev_Ready by (fastforce simp: Let_def)
    qed
  qed
qed simp

lemma port_of_word: "0 \<le> p \<Longrightarrow> p \<le> 65535 \<Longrightarrow> port_number c = word_of_int p \<Longrightarrow> port_int c = p"
  using to_int32_id [of p] by (simp add: port_int_def to_int32_def)

text \<open>Claim C1. From the start of the program to the bytes that a client receives: on a valid
  configuration file with a port that is not negative, the program runs, and for every connection
  that the loop could accept and for which it could start a handler there is a handler, with the
  client's descriptor and address. When the client sends a selector as one line and no call fails
  for its path and nothing waits for ever (\<open>polite\<close>, \<open>healthy\<close>), the handler delivers exactly the
  answer of the specification, with the host name and port of the file and below its root directory, and
  ends. It has given the log one message when the answer was a file, and none otherwise. It has closed the
  connection once, except when the path is a FIFO or a character device: then the descriptor is never
  closed. Its own five blocks are freed; exactly the blocks in \<open>left_over\<close> (of \<open>realpath\<close> and of
  unknown item types) are not.\<close>

theorem program_answers:
  assumes "\<forall>n. mem n" and "list_all wf_opt opts" and "each_once opts"
    and "{Opt_Port p, Opt_Mode m, Opt_Root d, Opt_Ip h} \<subseteq> set opts" and "0 \<le> p" and "length d < BUFFER_SIZE"
    and "length dir < BUFFER_SIZE" and "list_all id calls" and "net_ok (lf_net fin) (word_of_int p)"
    and "list_all no_signal (lf_events fin)" and "sv_handlers s = []"
    and "Ev_Ready rd \<in> set (lf_events fin)" and "rd_accept rd = Accepted n name"
    and "rd_name_ok rd" and "rd_args_ok rd" and "rd_spawn rd"
    and "polite sel w" and "healthy env dir (resolved d sel)"
  shows "\<exists>s' args. main_linux mem (Some (render opts)) f1 f2 [] (Some dir) calls fin [] s = (Blocked, s') \<and>
    args \<in> set (sv_handlers s') \<and> fd args = int n \<and> ip_client args = name \<and>
    wp (handler_run env args) (\<lambda>r w'. r = (if m = M_THREAD then Thread_Exit else Exit 0) \<and>
      out w' = answer env dir h p (resolved d sel) sel \<and>
      live w' = left_over env dir (resolved d sel) \<and>
      closes w' = (if file_class env dir (resolved d sel) = FILES_IS_UNMANAGED_FILE then 0 else 1) \<and>
      plog w' = (if file_class env dir (resolved d sel) = FILES_IS_REG_FILE
        then [snprintf_text (BUFFER_SIZE * 2) (log_text (resolved d sel)
          (int (length (the (os_mmap env (resolved d sel))))) name h p)] else []))
      (handler_world s' args w)"
proof -
  let ?s0 = "started_server (lf_net fin) p m d h dir s"
  let ?r = "accept_loop (n_socket (lf_net fin)) (lf_events fin) ?s0"
  have wf: "p \<le> 65535" "m = M_THREAD \<or> m = M_PROCESS" "d \<noteq> []"
    using assms(2,4) by (auto simp: list_all_iff plain_def)
  have run: "main_linux mem (Some (render opts)) f1 f2 [] (Some dir) calls fin [] s = (Blocked, snd ?r)"
    using accept_loop_no_signal [OF assms(10), of _ ?s0] main_linux_run [OF assms(1-4,7-9)]
    by (simp add: prod_eq_iff)
  have after: "sv_handlers (snd ?r) = served (sv_conf ?s0) (lf_events fin)" "sv_ip (snd ?r) = h" "sv_cwd (snd ?r) = dir"
    using accept_loop_no_signal [OF assms(10), of _ ?s0] assms(11) by simp_all
  have "spawns (sv_conf ?s0) rd" using assms(14-16) wf(2) by (simp add: spawns_def)
  then obtain b where args: "\<lparr>fd = int n, configs = hup b (sv_conf ?s0), ip_client = name, type_Request = 0\<rparr>
      \<in> set (served (sv_conf ?s0) (lf_events fin))"
    using round_is_served [OF assms(10,12,13)] by blast
  let ?args = "\<lparr>fd = int n, configs = hup b (sv_conf ?s0), ip_client = name, type_Request = 0\<rparr>"
  have port: "port_int (hup b (sv_conf ?s0)) = p" by (rule port_of_word) (simp_all add: wf assms(5))
  have "wp (handler_run env ?args) (answered env (handler_world (snd ?r) ?args w) (resolved d sel) sel)
      (handler_world (snd ?r) ?args w)"
    by (rule handler_answers [where c = "hup b (sv_conf ?s0)"])
      (use assms(5,6,17,18) wf in \<open>simp_all add: port after(3)\<close>)
  moreover have "plog w = []" using assms(17) by (simp add: polite_def)
  ultimately have "wp (handler_run env ?args) (\<lambda>r w'. r = (if m = M_THREAD then Thread_Exit else Exit 0) \<and>
      out w' = answer env dir h p (resolved d sel) sel \<and>
      live w' = left_over env dir (resolved d sel) \<and>
      closes w' = (if file_class env dir (resolved d sel) = FILES_IS_UNMANAGED_FILE then 0 else 1) \<and>
      plog w' = (if file_class env dir (resolved d sel) = FILES_IS_REG_FILE
        then [snprintf_text (BUFFER_SIZE * 2) (log_text (resolved d sel)
          (int (length (the (os_mmap env (resolved d sel))))) name h p)] else []))
      (handler_world (snd ?r) ?args w)"
    by (elim wp_mono) (simp add: answered_def Let_def handler_world_def after port log_of_def others_def in_core)
  with run args after(1) show ?thesis
    by (intro exI [of _ "snd ?r"] exI [of _ ?args]) simp
qed

text \<open>A client that asks for \<open>/a\<close> in three pieces.\<close>

definition a_client :: world where
  "a_client = client_world [Rx_Data ''/'', Rx_Intr, Rx_Data (''a'' @ [CR]), Rx_Data [NL]]"

lemma a_client_polite: "polite ''/a'' a_client"
  by (simp add: polite_def a_client_def client_world_def nul_free_def BUFFER_SIZE_def)

lemma hello_class:
  assumes "r \<noteq> []" and "last r \<noteq> CHR ''/''"
  shows "file_class (small_file ''hello'') d (resolved r ''/a'') = FILES_IS_REG_FILE"
proof -
  have "basename (r @ CHR ''/'' # ''a'') = ''a''" by (rule basename_last) simp_all
  then show ?thesis
    using assms by (intro small_file_class) (simp add: resolved_def OS_SEPARATOR_def log_file_name_def)
qed

lemma hello_healthy:
  "r \<noteq> [] \<Longrightarrow> last r \<noteq> CHR ''/'' \<Longrightarrow> healthy (small_file ''hello'') d (resolved r ''/a'')"
  by (simp add: healthy_def hello_class small_file_code file_types)

theorem program_answers_witness:
  "\<exists>s' args. main_linux (\<lambda>_. True) (Some (render sample_opts)) 0 0 [] (Some ''/srv'') (replicate 12 True)
     (a_life\<lparr>lf_events := [Ev_Ready good_round]\<rparr>) [] a_server = (Blocked, s') \<and>
     args \<in> set (sv_handlers s') \<and> fd args = 4 \<and>
     wp (handler_run (small_file ''hello'') args) (\<lambda>r w'. r = Thread_Exit \<and> out w' = ''hello'' \<and> closes w' = 1)
       (handler_world s' args a_client)"
proof -
  have "\<exists>s' args. main_linux (\<lambda>_. True) (Some (render sample_opts)) 0 0 [] (Some ''/srv'') (replicate 12 True)
     (a_life\<lparr>lf_events := [Ev_Ready good_round]\<rparr>) [] a_server = (Blocked, s') \<and>
    args \<in> set (sv_handlers s') \<and> fd args = int 4 \<and> ip_client args = ''10.0.0.7'' \<and>
    wp (handler_run (small_file ''hello'') args) (\<lambda>r w'. r = (if M_THREAD = M_THREAD then Thread_Exit else Exit 0) \<and>
      out w' = answer (small_file ''hello'') ''/srv'' ''g.org'' 7080 (resolved ''.'' ''/a'') ''/a'' \<and>
      live w' = left_over (small_file ''hello'') ''/srv'' (resolved ''.'' ''/a'') \<and>
      closes w' = (if file_class (small_file ''hello'') ''/srv'' (resolved ''.'' ''/a'') = FILES_IS_UNMANAGED_FILE then 0 else 1) \<and>
      plog w' = (if file_class (small_file ''hello'') ''/srv'' (resolved ''.'' ''/a'') = FILES_IS_REG_FILE
        then [snprintf_text (BUFFER_SIZE * 2) (log_text (resolved ''.'' ''/a'')
          (int (length (the (os_mmap (small_file ''hello'') (resolved ''.'' ''/a''))))) ''10.0.0.7'' ''g.org'' 7080)] else []))
      (handler_world s' args a_client)"
    by (rule program_answers [where rd = good_round and opts = sample_opts])
      (simp_all add: sample_opts_def plain_def each_once_def once_def BUFFER_SIZE_def list_all_iff a_life_def net_ok_def
        a_net_def no_signal_def a_server_def good_round_def a_client_polite hello_healthy)
  then show ?thesis
    by (elim ex_forward conj_forward)
      (simp_all add: hello_class answer_def Let_def file_types, elim conjE wp_mono, simp)
qed

text \<open>A request for a regular file that can be sent, as the handler meets it.\<close>

definition download :: "os \<Rightarrow> world \<Rightarrow> string \<Rightarrow> bool" where
  "download env w sel \<longleftrightarrow>
     (let d = root_dir (configs (w_args w))
      in holds {Blk_Ip, Blk_Args} w \<and> fresh w \<and> polite sel w \<and> out w = [] \<and> d \<noteq> [] \<and> length d < BUFFER_SIZE \<and>
         healthy env (cwd w) (resolved d sel) \<and> file_class env (cwd w) (resolved d sel) = FILES_IS_REG_FILE)"

lemma download_message:
  assumes "download env w sel"
  shows "plog (snd (handle_request env w)) = [log_of w (resolved (root_dir (configs (w_args w))) sel)
    (int (length (out (snd (handle_request env w)))))]"
proof -
  let ?p = "resolved (root_dir (configs (w_args w))) sel"
  have "wp (handle_request env) (answered env w ?p sel) w"
    using assms handle_request_answered [of w sel _ env] by (auto simp: download_def polite_def Let_def)
  then show ?thesis
    using assms by (simp add: wp_fst_snd answered_def Let_def download_def polite_def answer_def file_types)
qed

text \<open>Claim C4. The handlers and the log process together. Each handler that has been started serves a request
  for a file, and its message is the one that its request gives to the log process. Under every
  interleaving, when the log protocol has come to rest and the log process has not ended, the log
  holds exactly one line for every handler: its path, the number of bytes that its client has
  received, and the address of the client.\<close>

theorem deliveries_logged:
  assumes "log_reachable limit msg s" and "(log_step limit msg ^^ k) s t"
    and "\<nexists>u. log_step limit msg t u" and "child t \<noteq> C_Dead"
    and "\<forall>i\<in>started s. download (env i) (w i) (sel i) \<and> plog (snd (handle_request (env i) (w i))) = [msg i]"
  shows "mset (log_out t) = image_mset (\<lambda>i. log_line (log_of (w i)
      (resolved (root_dir (configs (w_args (w i)))) (sel i)) (int (length (out (snd (handle_request (env i) (w i))))))))
    (mset_set (started s))"
proof -
  have inv: "log_inv msg t" by (rule reachable_inv [OF reachable_log_steps [OF assms(1,2)]])
  then have rest: "\<forall>i. servers t i \<in> {S_Idle, S_Done}" "log_out t = map (\<lambda>i. log_line (msg i)) (wrote t)"
    using at_rest [OF inv assms(4)] assms(3) by blast+
  have "distinct (wrote t)" "set (wrote t) = {i. servers t i \<in> {S_Signal, S_Unlock, S_Done}}"
    using inv by (simp_all add: log_inv_def order_inv_def)
  moreover have "{i. servers t i \<in> {S_Signal, S_Unlock, S_Done}} = started t"
    using rest(1) by (auto simp: started_def)
  ultimately have "mset (wrote t) = mset_set (started s)"
    using log_steps_started [OF assms(2)] by (metis mset_set_set)
  then have "mset (log_out t) = image_mset (\<lambda>i. log_line (msg i)) (mset_set (started s))"
    by (simp add: rest(2))
  also have "\<dots> = image_mset (\<lambda>i. log_line (log_of (w i)
      (resolved (root_dir (configs (w_args (w i)))) (sel i)) (int (length (out (snd (handle_request (env i) (w i))))))))
    (mset_set (started s))"
    using assms(5) download_message finite_started [OF assms(1)]
    by (intro image_mset_cong) (auto dest!: download_message)
  finally show ?thesis .
qed

text \<open>One download, from the arrival of its handler to the log process at rest.\<close>

definition hello_log :: string where
  "hello_log = hd (plog (snd (handle_request (small_file ''hello'') a_client)))"

definition hello_rest :: logsys where
  "hello_rest = the (run_moves 1 (\<lambda>_. hello_log) (one_message 0 @ [Log_Process, Log_Process, Log_Process]) log_init)"

lemma hello_rest_run:
  "run_moves 1 (\<lambda>_. hello_log) (one_message 0 @ [Log_Process, Log_Process, Log_Process]) log_init = Some hello_rest \<and>
   child hello_rest = C_Waiting \<and> servers hello_rest = (\<lambda>i. if i = 0 then S_Done else S_Idle)"
proof -
  have "\<exists>t. run_moves 1 (\<lambda>_. hello_log) (one_message 0 @ [Log_Process, Log_Process, Log_Process]) log_init = Some t \<and>
     child t = C_Waiting \<and> servers t = (\<lambda>i. if i = 0 then S_Done else S_Idle)"
    by (simp add: one_message_def log_init_def fun_eq_iff)
  then show ?thesis unfolding hello_rest_def by force
qed

lemma hello_at_rest: "\<nexists>u. log_step 1 (\<lambda>_. hello_log) hello_rest u"
  using hello_rest_run
  by (auto simp: log_step_def split: if_splits elim!: child_step.cases server_step.cases)

lemma hello_download: "download (small_file ''hello'') a_client ''/a''"
  using a_client_polite
  by (simp add: download_def a_client_def client_world_fresh BUFFER_SIZE_def hello_healthy hello_class)

theorem deliveries_logged_witness:
  "mset (log_out hello_rest) = {# log_line (log_of a_client (resolved ''/srv'' ''/a'')
     (int (length (out (snd (handle_request (small_file ''hello'') a_client)))))) #}"
proof -
  have started: "started hello_rest = {0}" using hello_rest_run by (auto simp: started_def)
  have "plog (snd (handle_request (small_file ''hello'') a_client)) = [hello_log]"
    using download_message [OF hello_download] by (simp add: hello_log_def)
  moreover have "log_reachable 1 (\<lambda>_. hello_log) hello_rest"
    by (rule log_reachable_moves [OF log_reachable_init]) (rule conjunct1 [OF hello_rest_run])
  ultimately have "mset (log_out hello_rest) = image_mset (\<lambda>i. log_line (log_of a_client
      (resolved (root_dir (configs (w_args a_client))) ''/a'')
      (int (length (out (snd (handle_request (small_file ''hello'') a_client))))))) (mset_set (started hello_rest))"
    using hello_rest_run hello_at_rest hello_download
    by (intro deliveries_logged [where k = 0 and env = "\<lambda>_. small_file ''hello''" and w = "\<lambda>_. a_client"
        and sel = "\<lambda>_. ''/a''"]) auto
  then show ?thesis by (simp add: started) (simp add: a_client_def)
qed

end
